theory Spec2Isabelle
  imports Main "HOL-Library.Word"
begin

unbundle bit_operations_syntax

chapter \<open>The model\<close>

section \<open>Machine types, error codes and crashes\<close>

text \<open>
  \<^verbatim>\<open>unsigned long\<close>, \<^verbatim>\<open>gfn_t\<close>, \<^verbatim>\<open>gpa_t\<close>, \<^verbatim>\<open>hva_t\<close>, \<^verbatim>\<open>kvm_pfn_t\<close> and pointers are 64-bit
  words: addition, subtraction and shifts wrap around as they do in C.
\<close>

type_synonym u64 = "64 word"

text \<open>
  A kernel crash (\<^verbatim>\<open>BUG()\<close>, \<^verbatim>\<open>BUG_ON\<close>, \<^verbatim>\<open>VM_BUG_ON\<close>) and the dereference of a pointer
  that does not point at a page table are results of their own, apart from the
  error codes a function returns.
\<close>

datatype crash = BUG | WildPointer

definition ENOMEM :: int where
  "ENOMEM = 12"

definition EFAULT :: int where
  "EFAULT = 14"

section \<open>The node allocator: \<^verbatim>\<open>struct kvm_mmu_memory_cache\<close>\<close>

record kvm_mmu_memory_cache =
  nobjs :: int
  objects :: "int \<Rightarrow> u64"

text \<open>
  The host page allocator is the list of the results of the coming calls of
  \<^verbatim>\<open>__get_free_page\<close>: an address, or 0 (\<^verbatim>\<open>NULL\<close>) when the host cannot supply a
  page. Past the end of the list the host has nothing left.
\<close>

type_synonym host_pages = "u64 list"

fun get_free_page :: "host_pages \<Rightarrow> u64 \<times> host_pages" where
  "get_free_page [] = (0, [])"
| "get_free_page (p # host) = (p, host)"

text \<open>
  The loop of \<^verbatim>\<open>mmu_topup_memory_cache\<close>:
  \<^verbatim>\<open>while (cache->nobjs < max) { page = __get_free_page(); if (!page) return -ENOMEM;
  cache->objects[cache->nobjs++] = page; } return 0;\<close>
\<close>

fun mmu_topup_loop ::
  "int \<Rightarrow> kvm_mmu_memory_cache \<Rightarrow> host_pages \<Rightarrow> int \<times> kvm_mmu_memory_cache \<times> host_pages" where
  "mmu_topup_loop max_objs cache [] =
     (if nobjs cache < max_objs then (- ENOMEM, cache, []) else (0, cache, []))"
| "mmu_topup_loop max_objs cache (page # host) =
     (if nobjs cache < max_objs then
        (if page = 0 then (- ENOMEM, cache, host)
         else mmu_topup_loop max_objs
                (cache\<lparr>objects := (objects cache)(nobjs cache := page),
                       nobjs := nobjs cache + 1\<rparr>) host)
      else (0, cache, page # host))"

text \<open>
  \<^verbatim>\<open>mmu_topup_memory_cache(cache, min, max)\<close>; the capacity \<^verbatim>\<open>KVM_NR_MEM_OBJS\<close> of the
  \<^verbatim>\<open>objects\<close> array is a parameter (its definition is in a header).
\<close>

definition mmu_topup_memory_cache ::
  "int \<Rightarrow> kvm_mmu_memory_cache \<Rightarrow> int \<Rightarrow> int \<Rightarrow> host_pages
     \<Rightarrow> crash + (int \<times> kvm_mmu_memory_cache \<times> host_pages)" where
  "mmu_topup_memory_cache KVM_NR_MEM_OBJS cache min_objs max_objs host =
     (if max_objs > KVM_NR_MEM_OBJS then Inl BUG
      else if nobjs cache \<ge> min_objs then Inr (0, cache, host)
      else Inr (mmu_topup_loop max_objs cache host))"

text \<open>\<^verbatim>\<open>mmu_memory_cache_alloc\<close>: \<^verbatim>\<open>BUG_ON(!mc || !mc->nobjs); p = mc->objects[--mc->nobjs];\<close>\<close>

definition mmu_memory_cache_alloc ::
  "kvm_mmu_memory_cache option \<Rightarrow> crash + (u64 \<times> kvm_mmu_memory_cache)" where
  "mmu_memory_cache_alloc mc =
     (case mc of
        None \<Rightarrow> Inl BUG
      | Some c \<Rightarrow>
          if nobjs c = 0 then Inl BUG
          else Inr (objects c (nobjs c - 1), c\<lparr>nobjs := nobjs c - 1\<rparr>))"

section \<open>The Dune address translation\<close>

record mm_struct =
  mmap_base :: u64
  start_stack :: u64

text \<open>
  \<^verbatim>\<open>GPA_STACK_SIZE\<close>, \<^verbatim>\<open>GPA_MAP_SIZE\<close> and \<^verbatim>\<open>LG_ALIGN\<close> are macros of a header: they are
  parameters of the translation.
\<close>

record dune_layout =
  GPA_STACK_SIZE :: u64
  GPA_MAP_SIZE :: u64
  LG_ALIGN :: "u64 \<Rightarrow> u64"

definition get_pabit :: nat where
  "get_pabit = 1"

definition ADDR_INVAL :: u64 where
  "ADDR_INVAL = - 1"

definition dune_hva_to_gpa :: "dune_layout \<Rightarrow> mm_struct \<Rightarrow> u64 \<Rightarrow> u64" where
  "dune_hva_to_gpa L mm hva =
     (let phys_end = push_bit get_pabit (1 :: u64);
          mmap_start = LG_ALIGN L (mmap_base mm) - GPA_MAP_SIZE L;
          stack_start = LG_ALIGN L (start_stack mm) - GPA_STACK_SIZE L
      in if hva \<ge> stack_start then
           (if hva - stack_start \<ge> GPA_STACK_SIZE L then ADDR_INVAL
            else hva - stack_start + phys_end - GPA_STACK_SIZE L)
         else if hva \<ge> mmap_start then
           (if hva - mmap_start \<ge> GPA_MAP_SIZE L then ADDR_INVAL
            else hva - mmap_start + phys_end - GPA_STACK_SIZE L - GPA_MAP_SIZE L)
         else
           (if hva \<ge> phys_end - GPA_STACK_SIZE L - GPA_MAP_SIZE L then ADDR_INVAL
            else hva))"

definition dune_gpa_to_hva :: "dune_layout \<Rightarrow> mm_struct \<Rightarrow> u64 \<Rightarrow> u64" where
  "dune_gpa_to_hva L mm gpa =
     (let phys_end = push_bit get_pabit (1 :: u64)
      in if gpa < phys_end - GPA_STACK_SIZE L - GPA_MAP_SIZE L then gpa
         else if gpa < phys_end - GPA_STACK_SIZE L then
           gpa - (phys_end - GPA_STACK_SIZE L - GPA_MAP_SIZE L)
             + LG_ALIGN L (mmap_base mm) - GPA_MAP_SIZE L
         else if gpa < phys_end then
           gpa - (phys_end - GPA_STACK_SIZE L)
             + LG_ALIGN L (start_stack mm) - GPA_STACK_SIZE L
         else ADDR_INVAL)"

section \<open>Page-table geometry\<close>

text \<open>
  \<^verbatim>\<open>PAGE_SHIFT\<close>, \<^verbatim>\<open>PTRS_PER_PTE\<close>, \<^verbatim>\<open>PTRS_PER_PMD\<close>, \<^verbatim>\<open>PTRS_PER_PUD\<close> and \<^verbatim>\<open>PTRS_PER_PGD\<close> come
  from the architecture headers. Modelled from the spec: index extraction at each
  level is a fixed-width, non-overlapping bit-field slice of the guest-physical
  address. The widths are parameters; a level folded into the one above it has
  width 0.
\<close>

record pgtable_geometry =
  page_shift :: nat
  pte_bits :: nat
  pmd_bits :: nat
  pud_bits :: nat
  pgd_bits :: nat

definition PAGE_SHIFT :: "pgtable_geometry \<Rightarrow> nat" where
  "PAGE_SHIFT g = page_shift g"

definition PMD_SHIFT :: "pgtable_geometry \<Rightarrow> nat" where
  "PMD_SHIFT g = PAGE_SHIFT g + pte_bits g"

definition PUD_SHIFT :: "pgtable_geometry \<Rightarrow> nat" where
  "PUD_SHIFT g = PMD_SHIFT g + pmd_bits g"

definition PGDIR_SHIFT :: "pgtable_geometry \<Rightarrow> nat" where
  "PGDIR_SHIFT g = PUD_SHIFT g + pud_bits g"

definition PTRS_PER_PTE :: "pgtable_geometry \<Rightarrow> nat" where
  "PTRS_PER_PTE g = 2 ^ pte_bits g"

definition PTRS_PER_PMD :: "pgtable_geometry \<Rightarrow> nat" where
  "PTRS_PER_PMD g = 2 ^ pmd_bits g"

definition PTRS_PER_PUD :: "pgtable_geometry \<Rightarrow> nat" where
  "PTRS_PER_PUD g = 2 ^ pud_bits g"

definition PTRS_PER_PGD :: "pgtable_geometry \<Rightarrow> nat" where
  "PTRS_PER_PGD g = 2 ^ pgd_bits g"

definition PAGE_SIZE :: "pgtable_geometry \<Rightarrow> u64" where
  "PAGE_SIZE g = push_bit (PAGE_SHIFT g) 1"

definition PMD_SIZE :: "pgtable_geometry \<Rightarrow> u64" where
  "PMD_SIZE g = push_bit (PMD_SHIFT g) 1"

definition PMD_MASK :: "pgtable_geometry \<Rightarrow> u64" where
  "PMD_MASK g = NOT (PMD_SIZE g - 1)"

text \<open>
  \<^verbatim>\<open>__pte_offset(a) = (a >> PAGE_SHIFT) & (PTRS_PER_PTE - 1)\<close>, and the same slice one
  level up for \<^verbatim>\<open>__pmd_offset\<close>, \<^verbatim>\<open>__pud_offset\<close> and \<^verbatim>\<open>pgd_index\<close>.
\<close>

definition pte_index :: "pgtable_geometry \<Rightarrow> u64 \<Rightarrow> nat" where
  "pte_index g addr = unat (drop_bit (PAGE_SHIFT g) addr AND (of_nat (PTRS_PER_PTE g) - 1))"

definition pmd_index :: "pgtable_geometry \<Rightarrow> u64 \<Rightarrow> nat" where
  "pmd_index g addr = unat (drop_bit (PMD_SHIFT g) addr AND (of_nat (PTRS_PER_PMD g) - 1))"

definition pud_index :: "pgtable_geometry \<Rightarrow> u64 \<Rightarrow> nat" where
  "pud_index g addr = unat (drop_bit (PUD_SHIFT g) addr AND (of_nat (PTRS_PER_PUD g) - 1))"

definition pgd_index :: "pgtable_geometry \<Rightarrow> u64 \<Rightarrow> nat" where
  "pgd_index g addr = unat (drop_bit (PGDIR_SHIFT g) addr AND (of_nat (PTRS_PER_PGD g) - 1))"

section \<open>Page-table entries and nodes\<close>

text \<open>
  Modelled from the spec: the bit layout of \<^verbatim>\<open>pte_t\<close> and the accessors \<^verbatim>\<open>pte_present\<close>,
  \<^verbatim>\<open>pte_write\<close>, \<^verbatim>\<open>pte_dirty\<close>, \<^verbatim>\<open>pte_young\<close>, \<^verbatim>\<open>pte_pfn\<close> and \<^verbatim>\<open>pmd_huge\<close> are in the
  architecture headers. A mapping entry is the host frame number and the flags the
  spec's data model names: present, readable, writable, dirty, young, the huge marker
  of a middle-level entry, and the cacheability class. \<^verbatim>\<open>pte_val\<close> is the record itself.
\<close>

record pte_t =
  pte_pfn :: u64
  pte_present :: bool
  pte_read :: bool
  pte_write :: bool
  pte_dirty :: bool
  pte_young :: bool
  pte_huge :: bool
  pte_cca :: nat

text \<open>\<^verbatim>\<open>__pte(0)\<close>, also every entry of a page after \<^verbatim>\<open>clear_page\<close>.\<close>

definition pte_zero :: pte_t where
  "pte_zero = \<lparr>pte_pfn = 0, pte_present = False, pte_read = False, pte_write = False,
     pte_dirty = False, pte_young = False, pte_huge = False, pte_cca = 0\<rparr>"

definition pte_mkyoung :: "pte_t \<Rightarrow> pte_t" where
  "pte_mkyoung pte = pte\<lparr>pte_young := True\<rparr>"

definition pte_mkold :: "pte_t \<Rightarrow> pte_t" where
  "pte_mkold pte = pte\<lparr>pte_young := False\<rparr>"

definition pte_mkdirty :: "pte_t \<Rightarrow> pte_t" where
  "pte_mkdirty pte = pte\<lparr>pte_dirty := True\<rparr>"

definition pte_mkclean :: "pte_t \<Rightarrow> pte_t" where
  "pte_mkclean pte = pte\<lparr>pte_dirty := False\<rparr>"

text \<open>
  A leaf table is an array of \<^verbatim>\<open>PTRS_PER_PTE\<close> entries, indexed by \<^verbatim>\<open>__pte_offset\<close>. A
  middle-level entry is the pointer to \<^verbatim>\<open>invalid_pte_table\<close> (\<open>PmdNone\<close>), the pointer to a
  leaf table that the entry owns (\<open>PmdTable\<close>), or the bits of a mapping entry
  (\<open>PmdLeaf\<close>): a huge mapping when the huge marker is set. An upper-level entry is the
  pointer to \<^verbatim>\<open>invalid_pmd_table\<close> (\<open>PudNone\<close>) or to a middle-level node (\<open>PudTable\<close>). The
  nodes form a tree: a node is owned by the one entry that points to it.
\<close>

type_synonym pte_table = "nat \<Rightarrow> pte_t"

datatype pmd_t = PmdNone | PmdLeaf pte_t | PmdTable pte_table

type_synonym pmd_table = "nat \<Rightarrow> pmd_t"

datatype pud_t = PudNone | PudTable pmd_table

type_synonym pud_table = "nat \<Rightarrow> pud_t"

text \<open>
  The top level: \<^verbatim>\<open>kvm_pgd_init\<close> fills the directory with pointers to
  \<^verbatim>\<open>invalid_pmd_table\<close> and \<^verbatim>\<open>kvm_mips_walk_pgd\<close> notes that \<^verbatim>\<open>pgd_none\<close> is "not used on MIPS
  yet": the upper level is folded into the top one, a top-level entry is always
  present and holds its upper-level entries itself, and \<^verbatim>\<open>pgd_clear\<close> and
  \<^verbatim>\<open>pud_free\<close> do nothing.
\<close>

type_synonym pgd_table = "nat \<Rightarrow> pud_table"

definition pgd_none :: "pud_table \<Rightarrow> bool" where
  "pgd_none e = False"

definition pgd_present :: "pud_table \<Rightarrow> bool" where
  "pgd_present e = True"

definition pgd_clear :: "pud_table \<Rightarrow> pud_table" where
  "pgd_clear e = e"

definition pud_none :: "pud_t \<Rightarrow> bool" where
  "pud_none e = (case e of PudNone \<Rightarrow> True | PudTable _ \<Rightarrow> False)"

definition pud_present :: "pud_t \<Rightarrow> bool" where
  "pud_present e = (\<not> pud_none e)"

definition pud_huge :: "pud_t \<Rightarrow> bool" where
  "pud_huge e = False"

definition pmd_none :: "pmd_t \<Rightarrow> bool" where
  "pmd_none e = (case e of PmdNone \<Rightarrow> True | _ \<Rightarrow> False)"

definition pmd_huge :: "pmd_t \<Rightarrow> bool" where
  "pmd_huge e = (case e of PmdLeaf pte \<Rightarrow> pte_huge pte | _ \<Rightarrow> False)"

text \<open>
  \<^verbatim>\<open>pmd_present\<close>: a huge entry is present when its present flag is set, any other
  entry when it is not the pointer to \<^verbatim>\<open>invalid_pte_table\<close>.
\<close>

definition pmd_present :: "pmd_t \<Rightarrow> bool" where
  "pmd_present e =
     (case e of
        PmdNone \<Rightarrow> False
      | PmdLeaf pte \<Rightarrow> (if pte_huge pte then pte_present pte else True)
      | PmdTable _ \<Rightarrow> True)"

definition pmd_mkclean :: "pmd_t \<Rightarrow> pmd_t" where
  "pmd_mkclean e = (case e of PmdLeaf pte \<Rightarrow> PmdLeaf (pte_mkclean pte) | _ \<Rightarrow> e)"

definition pmd_mkold :: "pmd_t \<Rightarrow> pmd_t" where
  "pmd_mkold e = (case e of PmdLeaf pte \<Rightarrow> PmdLeaf (pte_mkold pte) | _ \<Rightarrow> e)"

text \<open>\<^verbatim>\<open>kvm_pgd_init\<close> / \<^verbatim>\<open>kvm_pgd_alloc\<close>: every entry points to \<^verbatim>\<open>invalid_pmd_table\<close>.\<close>

definition kvm_pgd_init :: pgd_table where
  "kvm_pgd_init = (\<lambda>i j. PudNone)"

text \<open>
  \<^verbatim>\<open>pmd_init(new_pmd, invalid_pte_table)\<close> makes every entry of a new middle-level node
  point to \<^verbatim>\<open>invalid_pte_table\<close>; \<^verbatim>\<open>clear_page(new_pte)\<close> zeroes a new leaf table.
\<close>

definition pmd_init :: pmd_table where
  "pmd_init = (\<lambda>k. PmdNone)"

definition clear_page :: pte_table where
  "clear_page = (\<lambda>l. pte_zero)"

section \<open>The page-table walk\<close>

text \<open>
  A \<^verbatim>\<open>pte_t *\<close> into the tree is the path of indices to the entry: to a middle-level
  entry (the walk returns \<^verbatim>\<open>(pte_t *)pmd\<close> for a huge mapping) or to an entry of a leaf
  table.
\<close>

datatype slot = PmdSlot nat nat nat | PteSlot nat nat nat nat

text \<open>\<^verbatim>\<open>*ptep\<close>: \<open>None\<close> when the path does not lead to a mapping entry.\<close>

definition slot_get :: "pgd_table \<Rightarrow> slot \<Rightarrow> pte_t option" where
  "slot_get pgd ptep =
     (case ptep of
        PmdSlot i j k \<Rightarrow>
          (case pgd i j of
             PudTable pmd \<Rightarrow> (case pmd k of PmdLeaf pte \<Rightarrow> Some pte | _ \<Rightarrow> None)
           | PudNone \<Rightarrow> None)
      | PteSlot i j k l \<Rightarrow>
          (case pgd i j of
             PudTable pmd \<Rightarrow> (case pmd k of PmdTable pte \<Rightarrow> Some (pte l) | _ \<Rightarrow> None)
           | PudNone \<Rightarrow> None))"

text \<open>\<^verbatim>\<open>set_pte(ptep, v)\<close>: stores the bits \<open>v\<close> at the entry the path leads to.\<close>

definition set_pte :: "pgd_table \<Rightarrow> slot \<Rightarrow> pte_t \<Rightarrow> pgd_table" where
  "set_pte pgd ptep v =
     (case ptep of
        PmdSlot i j k \<Rightarrow>
          (case pgd i j of
             PudTable pmd \<Rightarrow> pgd(i := (pgd i)(j := PudTable (pmd(k := PmdLeaf v))))
           | PudNone \<Rightarrow> pgd)
      | PteSlot i j k l \<Rightarrow>
          (case pgd i j of
             PudTable pmd \<Rightarrow>
               (case pmd k of
                  PmdTable pte \<Rightarrow>
                    pgd(i := (pgd i)(j := PudTable (pmd(k := PmdTable (pte(l := v))))))
                | _ \<Rightarrow> pgd)
           | PudNone \<Rightarrow> pgd))"

text \<open>
  The upper-level step of the walk, shared with \<^verbatim>\<open>kvm_mips_get_pmd\<close>:
  \<^verbatim>\<open>if (pud_none(*pud)) { if (!cache) return NULL; new_pmd = mmu_memory_cache_alloc(cache);
  pmd_init(new_pmd, invalid_pte_table); pud_populate(NULL, pud, new_pmd); }\<close>
  The result is \<open>None\<close> for \<^verbatim>\<open>return NULL\<close>, otherwise the middle-level node the entry
  points to afterwards, and the cache.
\<close>

definition walk_pud_entry ::
  "pud_t \<Rightarrow> kvm_mmu_memory_cache option
     \<Rightarrow> crash + (pmd_table \<times> kvm_mmu_memory_cache option) option" where
  "walk_pud_entry e cache =
     (case e of
        PudTable pmd \<Rightarrow> Inr (Some (pmd, cache))
      | PudNone \<Rightarrow>
          (case cache of
             None \<Rightarrow> Inr None
           | Some c \<Rightarrow>
               (case mmu_memory_cache_alloc cache of
                  Inl crash \<Rightarrow> Inl crash
                | Inr (new_pmd, c') \<Rightarrow> Inr (Some (pmd_init, Some c')))))"

text \<open>
  The middle-level step, after the test for a huge mapping:
  \<^verbatim>\<open>if (pmd_none(*pmd)) { if (!cache) return NULL; new_pte = mmu_memory_cache_alloc(cache);
  clear_page(new_pte); pmd_populate_kernel(NULL, pmd, new_pte); } return pte_offset(pmd, addr);\<close>
  An entry that is neither none nor a table pointer makes \<^verbatim>\<open>pte_offset\<close> a pointer
  outside the page tables.
\<close>

definition walk_pmd_entry ::
  "pmd_t \<Rightarrow> kvm_mmu_memory_cache option
     \<Rightarrow> crash + (pte_table \<times> kvm_mmu_memory_cache option) option" where
  "walk_pmd_entry e cache =
     (case e of
        PmdTable pte \<Rightarrow> Inr (Some (pte, cache))
      | PmdLeaf _ \<Rightarrow> Inl WildPointer
      | PmdNone \<Rightarrow>
          (case cache of
             None \<Rightarrow> Inr None
           | Some c \<Rightarrow>
               (case mmu_memory_cache_alloc cache of
                  Inl crash \<Rightarrow> Inl crash
                | Inr (new_pte, c') \<Rightarrow> Inr (Some (clear_page, Some c')))))"

text \<open>
  \<^verbatim>\<open>kvm_mips_walk_pgd(pgd, cache, addr)\<close>. The result is the returned pointer (\<open>None\<close> for
  \<^verbatim>\<open>NULL\<close>), the page table and the cache.
\<close>

definition kvm_mips_walk_pgd ::
  "pgtable_geometry \<Rightarrow> pgd_table \<Rightarrow> kvm_mmu_memory_cache option \<Rightarrow> u64
     \<Rightarrow> crash + (slot option \<times> pgd_table \<times> kvm_mmu_memory_cache option)" where
  "kvm_mips_walk_pgd g pgd cache addr =
     (let i = pgd_index g addr; j = pud_index g addr;
          k = pmd_index g addr; l = pte_index g addr
      in if pgd_none (pgd i) then Inl BUG
         else
           (case walk_pud_entry (pgd i j) cache of
              Inl crash \<Rightarrow> Inl crash
            | Inr None \<Rightarrow> Inr (None, pgd, cache)
            | Inr (Some (pmd, cache1)) \<Rightarrow>
                (let pgd1 = pgd(i := (pgd i)(j := PudTable pmd))
                 in if pmd_huge (pmd k) then Inr (Some (PmdSlot i j k), pgd1, cache1)
                    else
                      (case walk_pmd_entry (pmd k) cache1 of
                         Inl crash \<Rightarrow> Inl crash
                       | Inr None \<Rightarrow> Inr (None, pgd1, cache1)
                       | Inr (Some (pte, cache2)) \<Rightarrow>
                           Inr (Some (PteSlot i j k l),
                                pgd(i := (pgd i)(j := PudTable (pmd(k := PmdTable pte)))),
                                cache2)))))"

text \<open>\<^verbatim>\<open>kvm_mips_pte_for_gpa(kvm, cache, addr)\<close> walks \<^verbatim>\<open>kvm->gpa_mm.pgd\<close>.\<close>

definition kvm_mips_pte_for_gpa ::
  "pgtable_geometry \<Rightarrow> pgd_table \<Rightarrow> kvm_mmu_memory_cache option \<Rightarrow> u64
     \<Rightarrow> crash + (slot option \<times> pgd_table \<times> kvm_mmu_memory_cache option)" where
  "kvm_mips_pte_for_gpa g pgd cache addr = kvm_mips_walk_pgd g pgd cache addr"

section \<open>Range operations\<close>

text \<open>
  The loops \<^verbatim>\<open>for (i = i_min; i <= i_max; ++i, start = 0)\<close> of the range operations visit
  the entries \<open>i_min, ..., i_max\<close> of one node in order. Each iteration reads entry \<open>i\<close>,
  may replace it, and may update the result accumulated so far (\<^verbatim>\<open>safe_to_remove\<close>,
  \<^verbatim>\<open>ret\<close>); a crash in an iteration ends the loop. The body gets the index and the
  entry, and returns what it contributes to the result and the entry it leaves.
\<close>

primrec for_each_index ::
  "('a \<Rightarrow> 'a \<Rightarrow> 'a) \<Rightarrow> (nat \<Rightarrow> 'e \<Rightarrow> crash + 'a \<times> 'e) \<Rightarrow> nat list
     \<Rightarrow> 'a \<times> (nat \<Rightarrow> 'e) \<Rightarrow> crash + 'a \<times> (nat \<Rightarrow> 'e)" where
  "for_each_index comb body [] st = Inr st"
| "for_each_index comb body (i # idxs) st =
     (case body i (snd st i) of
        Inl crash \<Rightarrow> Inl crash
      | Inr (r, e) \<Rightarrow> for_each_index comb body idxs (comb (fst st) r, (snd st)(i := e)))"

subsection \<open>Unmap: \<^verbatim>\<open>kvm_mips_flush_gpa_{pte,pmd,pud,pgd,pt}\<close>\<close>

text \<open>
  \<^verbatim>\<open>kvm_mips_flush_gpa_pte\<close>: \<^verbatim>\<open>if (!pte_present(pte[i])) continue; set_pte(pte + i, __pte(0));\<close>
\<close>

definition kvm_mips_flush_gpa_pte ::
  "pgtable_geometry \<Rightarrow> pte_table \<Rightarrow> u64 \<Rightarrow> u64 \<Rightarrow> bool \<times> pte_table" where
  "kvm_mips_flush_gpa_pte g pte start_gpa end_gpa =
     (let i_min = pte_index g start_gpa;
          i_max = pte_index g end_gpa;
          safe_to_remove = (i_min = 0 \<and> i_max = PTRS_PER_PTE g - 1)
      in (safe_to_remove,
          fold (\<lambda>i pte. if \<not> pte_present (pte i) then pte else pte(i := pte_zero))
            [i_min ..< Suc i_max] pte))"

text \<open>
  One iteration of \<^verbatim>\<open>kvm_mips_flush_gpa_pmd\<close> on the entry \<^verbatim>\<open>pmd[i]\<close>; \<open>start_gpa\<close> and
  \<open>end_gpa\<close> are the values of \<^verbatim>\<open>start_gpa\<close> and \<^verbatim>\<open>end\<close> in that iteration. The first
  component is \<open>False\<close> where the source sets \<^verbatim>\<open>safe_to_remove = false\<close>.
\<close>

definition kvm_mips_flush_gpa_pmd_entry ::
  "pgtable_geometry \<Rightarrow> u64 \<Rightarrow> u64 \<Rightarrow> pmd_t \<Rightarrow> crash + bool \<times> pmd_t" where
  "kvm_mips_flush_gpa_pmd_entry g start_gpa end_gpa e =
     (if \<not> pmd_present e then Inr (True, e)
      else if pmd_huge e then Inr (True, PmdNone)
      else
        (case e of
           PmdTable pte \<Rightarrow>
             (case kvm_mips_flush_gpa_pte g pte start_gpa end_gpa of
                (safe, pte') \<Rightarrow>
                  if safe then Inr (True, PmdNone) else Inr (False, PmdTable pte'))
         | _ \<Rightarrow> Inl WildPointer))"

text \<open>
  \<^verbatim>\<open>kvm_mips_flush_gpa_pmd\<close>. In iteration \<open>i\<close>, \<^verbatim>\<open>start_gpa\<close> is the argument when
  \<open>i = i_min\<close> and 0 afterwards, and \<^verbatim>\<open>end\<close> is \<^verbatim>\<open>~0ul\<close> unless \<open>i = i_max\<close>.
\<close>

definition kvm_mips_flush_gpa_pmd ::
  "pgtable_geometry \<Rightarrow> pmd_table \<Rightarrow> u64 \<Rightarrow> u64 \<Rightarrow> crash + bool \<times> pmd_table" where
  "kvm_mips_flush_gpa_pmd g pmd start_gpa end_gpa =
     (let i_min = pmd_index g start_gpa;
          i_max = pmd_index g end_gpa;
          safe_to_remove = (i_min = 0 \<and> i_max = PTRS_PER_PMD g - 1)
      in for_each_index (\<and>)
           (\<lambda>i. kvm_mips_flush_gpa_pmd_entry g
                  (if i = i_min then start_gpa else 0) (if i = i_max then end_gpa else - 1))
           [i_min ..< Suc i_max] (safe_to_remove, pmd))"

definition kvm_mips_flush_gpa_pud_entry ::
  "pgtable_geometry \<Rightarrow> u64 \<Rightarrow> u64 \<Rightarrow> pud_t \<Rightarrow> crash + bool \<times> pud_t" where
  "kvm_mips_flush_gpa_pud_entry g start_gpa end_gpa e =
     (if \<not> pud_present e then Inr (True, e)
      else
        (case e of
           PudTable pmd \<Rightarrow>
             (case kvm_mips_flush_gpa_pmd g pmd start_gpa end_gpa of
                Inl crash \<Rightarrow> Inl crash
              | Inr (safe, pmd') \<Rightarrow>
                  if safe then Inr (True, PudNone) else Inr (False, PudTable pmd'))
         | PudNone \<Rightarrow> Inr (True, e)))"

definition kvm_mips_flush_gpa_pud ::
  "pgtable_geometry \<Rightarrow> pud_table \<Rightarrow> u64 \<Rightarrow> u64 \<Rightarrow> crash + bool \<times> pud_table" where
  "kvm_mips_flush_gpa_pud g pud start_gpa end_gpa =
     (let i_min = pud_index g start_gpa;
          i_max = pud_index g end_gpa;
          safe_to_remove = (i_min = 0 \<and> i_max = PTRS_PER_PUD g - 1)
      in for_each_index (\<and>)
           (\<lambda>i. kvm_mips_flush_gpa_pud_entry g
                  (if i = i_min then start_gpa else 0) (if i = i_max then end_gpa else - 1))
           [i_min ..< Suc i_max] (safe_to_remove, pud))"

definition kvm_mips_flush_gpa_pgd_entry ::
  "pgtable_geometry \<Rightarrow> u64 \<Rightarrow> u64 \<Rightarrow> pud_table \<Rightarrow> crash + bool \<times> pud_table" where
  "kvm_mips_flush_gpa_pgd_entry g start_gpa end_gpa e =
     (if \<not> pgd_present e then Inr (True, e)
      else
        (case kvm_mips_flush_gpa_pud g e start_gpa end_gpa of
           Inl crash \<Rightarrow> Inl crash
         | Inr (safe, pud') \<Rightarrow>
             if safe then Inr (True, pgd_clear pud') else Inr (False, pud')))"

definition kvm_mips_flush_gpa_pgd ::
  "pgtable_geometry \<Rightarrow> pgd_table \<Rightarrow> u64 \<Rightarrow> u64 \<Rightarrow> crash + bool \<times> pgd_table" where
  "kvm_mips_flush_gpa_pgd g pgd start_gpa end_gpa =
     (let i_min = pgd_index g start_gpa;
          i_max = pgd_index g end_gpa;
          safe_to_remove = (i_min = 0 \<and> i_max = PTRS_PER_PGD g - 1)
      in for_each_index (\<and>)
           (\<lambda>i. kvm_mips_flush_gpa_pgd_entry g
                  (if i = i_min then start_gpa else 0) (if i = i_max then end_gpa else - 1))
           [i_min ..< Suc i_max] (safe_to_remove, pgd))"

text \<open>
  \<^verbatim>\<open>kvm_mips_flush_gpa_pt(kvm, start_gfn, end_gfn)\<close>: \<open>end_gfn\<close> is the guest frame number
  of the last page of the range.
\<close>

definition kvm_mips_flush_gpa_pt ::
  "pgtable_geometry \<Rightarrow> pgd_table \<Rightarrow> u64 \<Rightarrow> u64 \<Rightarrow> crash + bool \<times> pgd_table" where
  "kvm_mips_flush_gpa_pt g pgd start_gfn end_gfn =
     kvm_mips_flush_gpa_pgd g pgd
       (push_bit (PAGE_SHIFT g) start_gfn) (push_bit (PAGE_SHIFT g) end_gfn)"

subsection \<open>Mark clean and mark old: \<^verbatim>\<open>BUILD_PTE_RANGE_OP(name, op, op1)\<close>\<close>

text \<open>
  The macro builds \<^verbatim>\<open>kvm_mips_<name>_{pte,pmd,pud,pgd}\<close> from \<open>op\<close> on leaf entries and
  \<open>op1\<close> on huge middle-level entries; the functions below take \<open>op\<close> and \<open>op1\<close> as
  arguments. \<^verbatim>\<open>int ret\<close> is accumulated with \<^verbatim>\<open>ret |= ...\<close>.
\<close>

definition kvm_mips_op_pte ::
  "(pte_t \<Rightarrow> pte_t) \<Rightarrow> pgtable_geometry \<Rightarrow> pte_table \<Rightarrow> u64 \<Rightarrow> u64 \<Rightarrow> int \<times> pte_table" where
  "kvm_mips_op_pte op g pte start_gpa end_gpa =
     (let i_min = pte_index g start_gpa;
          i_max = pte_index g end_gpa
      in fold (\<lambda>i (ret, pte).
                 if \<not> pte_present (pte i) then (ret, pte)
                 else if op (pte i) = pte i then (ret, pte)
                 else (1, pte(i := op (pte i))))
           [i_min ..< Suc i_max] (0, pte))"

text \<open>
  One iteration of \<^verbatim>\<open>kvm_mips_<name>_pmd\<close>. For a huge entry the source stores the new
  value with \<^verbatim>\<open>set_pmd\<close> and continues; \<^verbatim>\<open>ret\<close> is only touched below, by
  \<^verbatim>\<open>ret |= kvm_mips_<name>_pte(pte, start, cur_end)\<close>.
\<close>

definition kvm_mips_op_pmd_entry ::
  "(pte_t \<Rightarrow> pte_t) \<Rightarrow> (pmd_t \<Rightarrow> pmd_t) \<Rightarrow> pgtable_geometry \<Rightarrow> u64 \<Rightarrow> u64 \<Rightarrow> pmd_t
     \<Rightarrow> crash + int \<times> pmd_t" where
  "kvm_mips_op_pmd_entry op op1 g start_gpa end_gpa e =
     (if \<not> pmd_present e then Inr (0, e)
      else if pmd_huge e then
        (if op1 e = e then Inr (0, e) else Inr (0, op1 e))
      else
        (case e of
           PmdTable pte \<Rightarrow>
             (case kvm_mips_op_pte op g pte start_gpa end_gpa of
                (ret, pte') \<Rightarrow> Inr (ret, PmdTable pte'))
         | _ \<Rightarrow> Inl WildPointer))"

definition kvm_mips_op_pmd ::
  "(pte_t \<Rightarrow> pte_t) \<Rightarrow> (pmd_t \<Rightarrow> pmd_t) \<Rightarrow> pgtable_geometry \<Rightarrow> pmd_table \<Rightarrow> u64 \<Rightarrow> u64
     \<Rightarrow> crash + int \<times> pmd_table" where
  "kvm_mips_op_pmd op op1 g pmd start_gpa end_gpa =
     (let i_min = pmd_index g start_gpa;
          i_max = pmd_index g end_gpa
      in for_each_index (OR)
           (\<lambda>i. kvm_mips_op_pmd_entry op op1 g
                  (if i = i_min then start_gpa else 0) (if i = i_max then end_gpa else - 1))
           [i_min ..< Suc i_max] (0, pmd))"

definition kvm_mips_op_pud_entry ::
  "(pte_t \<Rightarrow> pte_t) \<Rightarrow> (pmd_t \<Rightarrow> pmd_t) \<Rightarrow> pgtable_geometry \<Rightarrow> u64 \<Rightarrow> u64 \<Rightarrow> pud_t
     \<Rightarrow> crash + int \<times> pud_t" where
  "kvm_mips_op_pud_entry op op1 g start_gpa end_gpa e =
     (if \<not> pud_present e then Inr (0, e)
      else
        (case e of
           PudTable pmd \<Rightarrow>
             (case kvm_mips_op_pmd op op1 g pmd start_gpa end_gpa of
                Inl crash \<Rightarrow> Inl crash
              | Inr (ret, pmd') \<Rightarrow> Inr (ret, PudTable pmd'))
         | PudNone \<Rightarrow> Inr (0, e)))"

definition kvm_mips_op_pud ::
  "(pte_t \<Rightarrow> pte_t) \<Rightarrow> (pmd_t \<Rightarrow> pmd_t) \<Rightarrow> pgtable_geometry \<Rightarrow> pud_table \<Rightarrow> u64 \<Rightarrow> u64
     \<Rightarrow> crash + int \<times> pud_table" where
  "kvm_mips_op_pud op op1 g pud start_gpa end_gpa =
     (let i_min = pud_index g start_gpa;
          i_max = pud_index g end_gpa
      in for_each_index (OR)
           (\<lambda>i. kvm_mips_op_pud_entry op op1 g
                  (if i = i_min then start_gpa else 0) (if i = i_max then end_gpa else - 1))
           [i_min ..< Suc i_max] (0, pud))"

definition kvm_mips_op_pgd_entry ::
  "(pte_t \<Rightarrow> pte_t) \<Rightarrow> (pmd_t \<Rightarrow> pmd_t) \<Rightarrow> pgtable_geometry \<Rightarrow> u64 \<Rightarrow> u64 \<Rightarrow> pud_table
     \<Rightarrow> crash + int \<times> pud_table" where
  "kvm_mips_op_pgd_entry op op1 g start_gpa end_gpa e =
     (if \<not> pgd_present e then Inr (0, e)
      else kvm_mips_op_pud op op1 g e start_gpa end_gpa)"

definition kvm_mips_op_pgd ::
  "(pte_t \<Rightarrow> pte_t) \<Rightarrow> (pmd_t \<Rightarrow> pmd_t) \<Rightarrow> pgtable_geometry \<Rightarrow> pgd_table \<Rightarrow> u64 \<Rightarrow> u64
     \<Rightarrow> crash + int \<times> pgd_table" where
  "kvm_mips_op_pgd op op1 g pgd start_gpa end_gpa =
     (let i_min = pgd_index g start_gpa;
          i_max = pgd_index g end_gpa
      in for_each_index (OR)
           (\<lambda>i. kvm_mips_op_pgd_entry op op1 g
                  (if i = i_min then start_gpa else 0) (if i = i_max then end_gpa else - 1))
           [i_min ..< Suc i_max] (0, pgd))"

text \<open>\<^verbatim>\<open>BUILD_PTE_RANGE_OP(mkclean, pte_mkclean, pmd_mkclean)\<close> and \<^verbatim>\<open>kvm_mips_mkclean_gpa_pt\<close>.\<close>

definition kvm_mips_mkclean_pgd ::
  "pgtable_geometry \<Rightarrow> pgd_table \<Rightarrow> u64 \<Rightarrow> u64 \<Rightarrow> crash + int \<times> pgd_table" where
  "kvm_mips_mkclean_pgd = kvm_mips_op_pgd pte_mkclean pmd_mkclean"

definition kvm_mips_mkclean_gpa_pt ::
  "pgtable_geometry \<Rightarrow> pgd_table \<Rightarrow> u64 \<Rightarrow> u64 \<Rightarrow> crash + int \<times> pgd_table" where
  "kvm_mips_mkclean_gpa_pt g pgd start_gfn end_gfn =
     kvm_mips_mkclean_pgd g pgd
       (push_bit (PAGE_SHIFT g) start_gfn) (push_bit (PAGE_SHIFT g) end_gfn)"

text \<open>\<^verbatim>\<open>BUILD_PTE_RANGE_OP(mkold, pte_mkold, pmd_mkold)\<close> and \<^verbatim>\<open>kvm_mips_mkold_gpa_pt\<close>.\<close>

definition kvm_mips_mkold_pgd ::
  "pgtable_geometry \<Rightarrow> pgd_table \<Rightarrow> u64 \<Rightarrow> u64 \<Rightarrow> crash + int \<times> pgd_table" where
  "kvm_mips_mkold_pgd = kvm_mips_op_pgd pte_mkold pmd_mkold"

definition kvm_mips_mkold_gpa_pt ::
  "pgtable_geometry \<Rightarrow> pgd_table \<Rightarrow> u64 \<Rightarrow> u64 \<Rightarrow> crash + int \<times> pgd_table" where
  "kvm_mips_mkold_gpa_pt g pgd start_gfn end_gfn =
     kvm_mips_mkold_pgd g pgd
       (push_bit (PAGE_SHIFT g) start_gfn) (push_bit (PAGE_SHIFT g) end_gfn)"

section \<open>Memory slots and the host-address handlers\<close>

text \<open>
  Modelled from the spec: the memory-slot registry (\<^verbatim>\<open>struct kvm_memory_slot\<close>,
  \<^verbatim>\<open>kvm_for_each_memslot\<close>, \<^verbatim>\<open>hva_to_gfn_memslot\<close>, \<^verbatim>\<open>gfn_to_memslot\<close>,
  \<^verbatim>\<open>gfn_to_hva_memslot_prot\<close>) is an external collaborator that maps guest frame ranges
  to host virtual address ranges. A slot maps the \<open>npages\<close> frames from \<open>base_gfn\<close> to the
  host virtual addresses from \<open>userspace_addr\<close>, page by page.
\<close>

record kvm_memory_slot =
  base_gfn :: u64
  npages :: u64
  userspace_addr :: u64
  readonly :: bool

definition hva_to_gfn_memslot :: "pgtable_geometry \<Rightarrow> u64 \<Rightarrow> kvm_memory_slot \<Rightarrow> u64" where
  "hva_to_gfn_memslot g hva slot =
     base_gfn slot + drop_bit (PAGE_SHIFT g) (hva - userspace_addr slot)"

definition gfn_to_memslot :: "kvm_memory_slot list \<Rightarrow> u64 \<Rightarrow> kvm_memory_slot option" where
  "gfn_to_memslot slots gfn =
     find (\<lambda>slot. base_gfn slot \<le> gfn \<and> gfn - base_gfn slot < npages slot) slots"

text \<open>
  \<^verbatim>\<open>gfn_to_hva_memslot_prot(memslot, gfn, &writable)\<close>: \<open>None\<close> for an error address (no
  slot), otherwise the host virtual address and whether the slot is writable.
\<close>

definition gfn_to_hva_memslot_prot ::
  "pgtable_geometry \<Rightarrow> kvm_memory_slot option \<Rightarrow> u64 \<Rightarrow> (u64 \<times> bool) option" where
  "gfn_to_hva_memslot_prot g memslot gfn =
     (case memslot of
        None \<Rightarrow> None
      | Some slot \<Rightarrow>
          Some (userspace_addr slot + (gfn - base_gfn slot) * PAGE_SIZE g, \<not> readonly slot))"

text \<open>
  What the code does to the world outside the page table, in the order in which it
  does it: the calls of \<^verbatim>\<open>mark_page_dirty\<close>, \<^verbatim>\<open>kvm_set_pfn_dirty\<close>, \<^verbatim>\<open>kvm_set_pfn_accessed\<close>,
  \<^verbatim>\<open>kvm_release_pfn_clean\<close>, \<^verbatim>\<open>kvm_get_pfn\<close>, \<^verbatim>\<open>kvm_vz_host_tlb_inv\<close> and
  \<^verbatim>\<open>kvm_flush_remote_tlbs\<close>, and a \<^verbatim>\<open>WARN_ON_ONCE\<close> that fires.
\<close>

datatype event =
  MarkPageDirty u64
| SetPfnDirty u64
| SetPfnAccessed u64
| ReleasePfnClean u64
| GetPfn u64
| HostTlbInv u64
| FlushRemoteTlbs
| Warning

text \<open>
  \<^verbatim>\<open>struct vz_vm\<close>: the GPA page directory \<^verbatim>\<open>gpa_mm.pgd\<close>, the memory slots, and the trace of
  the events so far (the newest last).
\<close>

record vz_vm =
  gpa_mm_pgd :: pgd_table
  memslots :: "kvm_memory_slot list"
  trace :: "event list"

text \<open>
  \<^verbatim>\<open>handle_hva_to_gpa(kvm, start, end, handler, data)\<close>: the handler gets the page table
  and returns its result and the page table it leaves.
\<close>

fun handle_hva_to_gpa_slots ::
  "pgtable_geometry \<Rightarrow> (pgd_table \<Rightarrow> u64 \<Rightarrow> u64 \<Rightarrow> kvm_memory_slot \<Rightarrow> crash + int \<times> pgd_table)
     \<Rightarrow> u64 \<Rightarrow> u64 \<Rightarrow> kvm_memory_slot list \<Rightarrow> int \<times> pgd_table \<Rightarrow> crash + int \<times> pgd_table" where
  "handle_hva_to_gpa_slots g handler start_hva end_hva [] st = Inr st"
| "handle_hva_to_gpa_slots g handler start_hva end_hva (memslot # slots) st =
     (let hva_start = max start_hva (userspace_addr memslot);
          hva_end = min end_hva
                      (userspace_addr memslot + push_bit (PAGE_SHIFT g) (npages memslot))
      in if hva_start \<ge> hva_end
         then handle_hva_to_gpa_slots g handler start_hva end_hva slots st
         else
           (let gfn = hva_to_gfn_memslot g hva_start memslot;
                gfn_end = hva_to_gfn_memslot g (hva_end + PAGE_SIZE g - 1) memslot
            in case handler (snd st) gfn gfn_end memslot of
                 Inl crash \<Rightarrow> Inl crash
               | Inr (r, pgd') \<Rightarrow>
                   handle_hva_to_gpa_slots g handler start_hva end_hva slots
                     (fst st OR r, pgd')))"

definition handle_hva_to_gpa ::
  "pgtable_geometry \<Rightarrow> vz_vm \<Rightarrow> u64 \<Rightarrow> u64
     \<Rightarrow> (pgd_table \<Rightarrow> u64 \<Rightarrow> u64 \<Rightarrow> kvm_memory_slot \<Rightarrow> crash + int \<times> pgd_table)
     \<Rightarrow> crash + int \<times> vz_vm" where
  "handle_hva_to_gpa g kvm start_hva end_hva handler =
     (case handle_hva_to_gpa_slots g handler start_hva end_hva (memslots kvm)
             (0, gpa_mm_pgd kvm) of
        Inl crash \<Rightarrow> Inl crash
      | Inr (ret, pgd') \<Rightarrow> Inr (ret, kvm\<lparr>gpa_mm_pgd := pgd'\<rparr>))"

text \<open>\<^verbatim>\<open>kvm_unmap_hva_handler\<close>: \<^verbatim>\<open>kvm_mips_flush_gpa_pt(kvm, gfn, gfn_end - 1); return 1;\<close>\<close>

definition kvm_unmap_hva_handler ::
  "pgtable_geometry \<Rightarrow> pgd_table \<Rightarrow> u64 \<Rightarrow> u64 \<Rightarrow> kvm_memory_slot \<Rightarrow> crash + int \<times> pgd_table" where
  "kvm_unmap_hva_handler g pgd gfn gfn_end memslot =
     (case kvm_mips_flush_gpa_pt g pgd gfn (gfn_end - 1) of
        Inl crash \<Rightarrow> Inl crash
      | Inr (safe, pgd') \<Rightarrow> Inr (1, pgd'))"

text \<open>\<^verbatim>\<open>kvm_age_hva_handler\<close>: \<^verbatim>\<open>return kvm_mips_mkold_gpa_pt(kvm, gfn, gfn_end);\<close>\<close>

definition kvm_age_hva_handler ::
  "pgtable_geometry \<Rightarrow> pgd_table \<Rightarrow> u64 \<Rightarrow> u64 \<Rightarrow> kvm_memory_slot \<Rightarrow> crash + int \<times> pgd_table" where
  "kvm_age_hva_handler g pgd gfn gfn_end memslot = kvm_mips_mkold_gpa_pt g pgd gfn gfn_end"

text \<open>
  \<^verbatim>\<open>kvm_test_age_hva_handler\<close>: \<^verbatim>\<open>gpa_pte = kvm_mips_pte_for_gpa(kvm, NULL, gpa);
  if (!gpa_pte) return 0; return pte_young(*gpa_pte);\<close>
\<close>

definition kvm_test_age_hva_handler ::
  "pgtable_geometry \<Rightarrow> pgd_table \<Rightarrow> u64 \<Rightarrow> u64 \<Rightarrow> kvm_memory_slot \<Rightarrow> crash + int \<times> pgd_table" where
  "kvm_test_age_hva_handler g pgd gfn gfn_end memslot =
     (let gpa = push_bit (PAGE_SHIFT g) gfn
      in case kvm_mips_pte_for_gpa g pgd None gpa of
           Inl crash \<Rightarrow> Inl crash
         | Inr (None, pgd', cache') \<Rightarrow> Inr (0, pgd')
         | Inr (Some gpa_pte, pgd', cache') \<Rightarrow>
             (case slot_get pgd' gpa_pte of
                None \<Rightarrow> Inl WildPointer
              | Some pte \<Rightarrow> Inr (if pte_young pte then 1 else 0, pgd')))"

text \<open>\<^verbatim>\<open>kvm_vz_flush_shadow_all\<close>, with \<^verbatim>\<open>cpu_has_guestid\<close> a parameter.\<close>

definition kvm_vz_flush_shadow_all :: "bool \<Rightarrow> vz_vm \<Rightarrow> vz_vm" where
  "kvm_vz_flush_shadow_all cpu_has_guestid kvm =
     (if cpu_has_guestid then kvm\<lparr>trace := trace kvm @ [FlushRemoteTlbs]\<rparr> else kvm)"

definition kvm_unmap_hva_range ::
  "pgtable_geometry \<Rightarrow> bool \<Rightarrow> vz_vm \<Rightarrow> u64 \<Rightarrow> u64 \<Rightarrow> crash + int \<times> vz_vm" where
  "kvm_unmap_hva_range g cpu_has_guestid kvm start_hva end_hva =
     (case handle_hva_to_gpa g kvm start_hva end_hva (kvm_unmap_hva_handler g) of
        Inl crash \<Rightarrow> Inl crash
      | Inr (ret, kvm') \<Rightarrow> Inr (0, kvm_vz_flush_shadow_all cpu_has_guestid kvm'))"

definition kvm_age_hva :: "pgtable_geometry \<Rightarrow> vz_vm \<Rightarrow> u64 \<Rightarrow> u64 \<Rightarrow> crash + int \<times> vz_vm" where
  "kvm_age_hva g kvm start_hva end_hva =
     handle_hva_to_gpa g kvm start_hva end_hva (kvm_age_hva_handler g)"

text \<open>\<^verbatim>\<open>kvm_test_age_hva\<close>: \<^verbatim>\<open>return handle_hva_to_gpa(kvm, hva, hva, kvm_test_age_hva_handler, NULL);\<close>\<close>

definition kvm_test_age_hva :: "pgtable_geometry \<Rightarrow> vz_vm \<Rightarrow> u64 \<Rightarrow> crash + int \<times> vz_vm" where
  "kvm_test_age_hva g kvm hva = handle_hva_to_gpa g kvm hva hva (kvm_test_age_hva_handler g)"

section \<open>Huge mappings\<close>

text \<open>
  A \<^verbatim>\<open>pmd_t *\<close> into the tree is the path to a middle-level entry. Reading through a
  pointer into \<^verbatim>\<open>invalid_pmd_table\<close> gives the pointer to \<^verbatim>\<open>invalid_pte_table\<close>.
\<close>

datatype pmd_ptr = PmdPtr nat nat nat

definition pmd_get :: "pgd_table \<Rightarrow> pmd_ptr \<Rightarrow> pmd_t" where
  "pmd_get pgd p =
     (case p of PmdPtr i j k \<Rightarrow>
        (case pgd i j of PudTable pmd \<Rightarrow> pmd k | PudNone \<Rightarrow> PmdNone))"

text \<open>\<^verbatim>\<open>set_pmd(pmd, v)\<close>; \<^verbatim>\<open>pmd_clear(pmd)\<close> is \<^verbatim>\<open>set_pmd\<close> with the pointer to \<^verbatim>\<open>invalid_pte_table\<close>.\<close>

definition set_pmd :: "pgd_table \<Rightarrow> pmd_ptr \<Rightarrow> pmd_t \<Rightarrow> pgd_table" where
  "set_pmd pgd p v =
     (case p of PmdPtr i j k \<Rightarrow>
        (case pgd i j of
           PudTable pmd \<Rightarrow> pgd(i := (pgd i)(j := PudTable (pmd(k := v))))
         | PudNone \<Rightarrow> pgd))"

text \<open>
  \<^verbatim>\<open>kvm_mips_get_pud\<close> and \<^verbatim>\<open>kvm_mips_get_pmd\<close>: the pointer to the middle-level entry for
  \<open>addr\<close> (\<open>None\<close> for \<^verbatim>\<open>NULL\<close>), the page table and the cache.
\<close>

definition kvm_mips_get_pmd ::
  "pgtable_geometry \<Rightarrow> pgd_table \<Rightarrow> kvm_mmu_memory_cache option \<Rightarrow> u64
     \<Rightarrow> crash + (pmd_ptr option \<times> pgd_table \<times> kvm_mmu_memory_cache option)" where
  "kvm_mips_get_pmd g pgd cache addr =
     (let i = pgd_index g addr; j = pud_index g addr; k = pmd_index g addr
      in if pgd_none (pgd i) then Inl BUG
         else if pud_huge (pgd i j) then Inr (None, pgd, cache)
         else
           (case walk_pud_entry (pgd i j) cache of
              Inl crash \<Rightarrow> Inl crash
            | Inr None \<Rightarrow> Inr (None, pgd, cache)
            | Inr (Some (pmd, cache1)) \<Rightarrow>
                Inr (Some (PmdPtr i j k), pgd(i := (pgd i)(j := PudTable pmd)), cache1)))"

text \<open>
  \<^verbatim>\<open>kvm_mips_set_pmd_huge(vcpu, cache, addr, new_pmd)\<close>. The first argument bounds the
  number of passes through the label \<^verbatim>\<open>retry\<close>; \<open>None\<close> is a run that needs more. A
  \<^verbatim>\<open>NULL\<close> from \<^verbatim>\<open>kvm_mips_get_pmd\<close> is \<^verbatim>\<open>VM_BUG_ON(!pmd)\<close>.
\<close>

fun kvm_mips_set_pmd_huge ::
  "nat \<Rightarrow> pgtable_geometry \<Rightarrow> vz_vm \<Rightarrow> kvm_mmu_memory_cache option \<Rightarrow> u64 \<Rightarrow> pmd_t
     \<Rightarrow> (crash + int \<times> vz_vm \<times> kvm_mmu_memory_cache option) option" where
  "kvm_mips_set_pmd_huge 0 g kvm cache addr new_pmd = None"
| "kvm_mips_set_pmd_huge (Suc passes) g kvm cache addr new_pmd =
     (case kvm_mips_get_pmd g (gpa_mm_pgd kvm) cache addr of
        Inl crash \<Rightarrow> Some (Inl crash)
      | Inr (None, pgd1, cache1) \<Rightarrow> Some (Inl BUG)
      | Inr (Some pmd, pgd1, cache1) \<Rightarrow>
          (let old_pmd = pmd_get pgd1 pmd
           in if old_pmd = new_pmd then Some (Inr (0, kvm\<lparr>gpa_mm_pgd := pgd1\<rparr>, cache1))
              else if pmd_present old_pmd \<and> \<not> pmd_huge old_pmd then
                (case kvm_mips_flush_gpa_pt g pgd1
                        (drop_bit (PAGE_SHIFT g) (addr AND PMD_MASK g))
                        (drop_bit (PAGE_SHIFT g) ((addr AND PMD_MASK g) + PMD_SIZE g - 1)) of
                   Inl crash \<Rightarrow> Some (Inl crash)
                 | Inr (safe, pgd2) \<Rightarrow>
                     kvm_mips_set_pmd_huge passes g (kvm\<lparr>gpa_mm_pgd := pgd2\<rparr>) cache1 addr new_pmd)
              else
                (let warn = (if pmd_present old_pmd \<and>
                                (case (old_pmd, new_pmd) of
                                   (PmdLeaf old_pte, PmdLeaf new_pte) \<Rightarrow>
                                     pte_pfn old_pte \<noteq> pte_pfn new_pte
                                 | _ \<Rightarrow> True)
                             then [Warning] else []);
                     pgd2 = (if pmd_present old_pmd then set_pmd pgd1 pmd PmdNone else pgd1)
                 in Some (Inr (0,
                      kvm\<lparr>gpa_mm_pgd := set_pmd pgd2 pmd new_pmd,
                          trace := trace kvm @ warn @ [HostTlbInv (addr AND PMD_MASK g)]\<rparr>,
                      cache1)))))"

text \<open>\<^verbatim>\<open>fault_supports_huge_mapping(memslot, hva, map_size)\<close>.\<close>

definition fault_supports_huge_mapping ::
  "pgtable_geometry \<Rightarrow> kvm_memory_slot \<Rightarrow> u64 \<Rightarrow> u64 \<Rightarrow> bool" where
  "fault_supports_huge_mapping g memslot hva map_size =
     (let size = npages memslot * PAGE_SIZE g;
          gpa_start = push_bit (PAGE_SHIFT g) (base_gfn memslot);
          uaddr_start = userspace_addr memslot;
          uaddr_end = uaddr_start + size
      in if (gpa_start AND (map_size - 1)) \<noteq> (uaddr_start AND (map_size - 1)) then False
         else (hva AND NOT (map_size - 1)) \<ge> uaddr_start \<and>
              (hva AND NOT (map_size - 1)) + map_size \<le> uaddr_end)"

text \<open>
  The first choice of the mapping size in \<^verbatim>\<open>kvm_mips_map_page\<close>:
  \<^verbatim>\<open>if (!fault_supports_huge_mapping(memslot, hva, vma_pagesize)) { force_pte = true;
  vma_pagesize = PAGE_SIZE; }\<close>. The result is \<^verbatim>\<open>force_pte\<close> and \<^verbatim>\<open>vma_pagesize\<close>.
\<close>

definition fault_page_size ::
  "pgtable_geometry \<Rightarrow> kvm_memory_slot \<Rightarrow> u64 \<Rightarrow> u64 \<Rightarrow> bool \<times> u64" where
  "fault_page_size g memslot hva vma_pagesize =
     (if \<not> fault_supports_huge_mapping g memslot hva vma_pagesize then (True, PAGE_SIZE g)
      else (False, vma_pagesize))"

section \<open>The fault handler\<close>

text \<open>
  The host side of a fault, an external collaborator: the page size of the VMA that
  holds a host virtual address (\<^verbatim>\<open>find_vma_intersection\<close>, \<^verbatim>\<open>vma_kernel_pagesize\<close>; \<open>None\<close>
  when there is no VMA), the answer of \<^verbatim>\<open>gfn_to_pfn_prot\<close> at each attempt (the frame and
  whether it may be written; \<open>None\<close> for an error frame), the number of attempts that
  \<^verbatim>\<open>mmu_notifier_retry\<close> rejects because an invalidation ran meanwhile, the frames that
  \<^verbatim>\<open>transparent_hugepage_adjust\<close> finds backed by a transparent huge page, the pages the
  allocator can give, \<^verbatim>\<open>KVM_NR_MEM_OBJS\<close> and \<^verbatim>\<open>_page_cachable_default\<close>.
\<close>

record host_env =
  vma_pagesize_at :: "u64 \<Rightarrow> u64 option"
  pfn_prot_at :: "nat \<Rightarrow> u64 \<Rightarrow> bool \<Rightarrow> (u64 \<times> bool) option"
  invalidations :: nat
  is_thp :: "u64 \<Rightarrow> bool"
  free_pages :: host_pages
  nr_mem_objs :: int
  page_cachable_default :: nat

text \<open>
  \<^verbatim>\<open>struct vz_vcpu\<close>: the VM, the vcpu's node cache and the cause register of the last
  exception.
\<close>

record vz_vcpu =
  kvm :: vz_vm
  mmu_page_cache :: kvm_mmu_memory_cache
  host_cp0_cause :: "32 word"

text \<open>The exception code field of the cause register, and the two codes that bypass the fast path.\<close>

definition CAUSEB_EXCCODE :: nat where
  "CAUSEB_EXCCODE = 2"

definition EXCCODE_TLBRI :: "32 word" where
  "EXCCODE_TLBRI = 19"

definition EXCCODE_TLBXI :: "32 word" where
  "EXCCODE_TLBXI = 20"

definition KVM_MMU_CACHE_MIN_PAGES :: int where
  "KVM_MMU_CACHE_MIN_PAGES = 2"

text \<open>
  \<^verbatim>\<open>mark_page_dirty\<close> for a write fault: every frame of the block under a huge entry
  (\<^verbatim>\<open>for (i = 0; i < PTRS_PER_PTE; i++) mark_page_dirty(kvm, base_gfn + i);\<close>), or the one
  frame.
\<close>

definition mark_pages_dirty :: "pgtable_geometry \<Rightarrow> bool \<Rightarrow> u64 \<Rightarrow> u64 \<Rightarrow> event list" where
  "mark_pages_dirty g huge gpa gfn =
     (if huge then
        map (\<lambda>i. MarkPageDirty (drop_bit (PAGE_SHIFT g) (gpa AND PMD_MASK g) + of_nat i))
          [0 ..< PTRS_PER_PTE g]
      else [MarkPageDirty gfn])"

text \<open>
  \<^verbatim>\<open>_kvm_mips_map_page_fast(vcpu, gpa, write_fault, NULL, NULL)\<close>: the result code and the
  VM. The call of \<^verbatim>\<open>kvm_set_pfn_accessed\<close> comes last, after the unlock.
\<close>

definition kvm_mips_map_page_fast ::
  "pgtable_geometry \<Rightarrow> vz_vm \<Rightarrow> u64 \<Rightarrow> bool \<Rightarrow> crash + int \<times> vz_vm" where
  "kvm_mips_map_page_fast g vm gpa write_fault =
     (let gfn = drop_bit (PAGE_SHIFT g) gpa
      in case kvm_mips_pte_for_gpa g (gpa_mm_pgd vm) None gpa of
           Inl crash \<Rightarrow> Inl crash
         | Inr (None, pgd0, cache0) \<Rightarrow> Inr (- EFAULT, vm)
         | Inr (Some ptep, pgd0, cache0) \<Rightarrow>
             (case slot_get pgd0 ptep of
                None \<Rightarrow> Inl WildPointer
              | Some pte0 \<Rightarrow>
                  if \<not> pte_present pte0 then Inr (- EFAULT, vm)
                  else
                    (let pfn_valid = (\<not> pte_young pte0);
                         pte1 = (if \<not> pte_young pte0 then pte_mkyoung pte0 else pte0);
                         pgd1 = (if \<not> pte_young pte0 then set_pte pgd0 ptep pte1 else pgd0);
                         accessed = (if pfn_valid then [SetPfnAccessed (pte_pfn pte1)] else [])
                     in if write_fault \<and> \<not> pte_dirty pte1 then
                          (if \<not> pte_write pte1
                           then Inr (- EFAULT,
                                  vm\<lparr>gpa_mm_pgd := pgd1, trace := trace vm @ accessed\<rparr>)
                           else
                             (let pte2 = pte_mkdirty pte1
                              in Inr (0,
                                   vm\<lparr>gpa_mm_pgd := set_pte pgd1 ptep pte2,
                                      trace := trace vm
                                        @ mark_pages_dirty g (pte_huge pte2) gpa gfn
                                        @ [SetPfnDirty (pte_pfn pte2)] @ accessed\<rparr>)))
                        else Inr (0, vm\<lparr>gpa_mm_pgd := pgd1, trace := trace vm @ accessed\<rparr>))))"

text \<open>
  \<^verbatim>\<open>transparent_hugepage_adjust(&pfn, &gpa)\<close>: the result, the frame, the address and the
  events.
\<close>

definition transparent_hugepage_adjust ::
  "pgtable_geometry \<Rightarrow> (u64 \<Rightarrow> bool) \<Rightarrow> u64 \<Rightarrow> u64 \<Rightarrow> crash + bool \<times> u64 \<times> u64 \<times> event list" where
  "transparent_hugepage_adjust g thp pfn gpa =
     (let gfn = drop_bit (PAGE_SHIFT g) gpa
      in if thp pfn then
           (let m = of_nat (PTRS_PER_PMD g) - 1
            in if (gfn AND m) \<noteq> (pfn AND m) then Inl BUG
               else if (pfn AND m) \<noteq> 0
               then Inr (True, pfn AND NOT m, gpa AND PMD_MASK g,
                         [ReleasePfnClean pfn, GetPfn (pfn AND NOT m)])
               else Inr (True, pfn, gpa, []))
         else Inr (False, pfn, gpa, []))"

text \<open>
  The loop at the label \<^verbatim>\<open>retry\<close> of \<^verbatim>\<open>kvm_mips_map_page\<close>: attempt \<open>n\<close> asks
  \<^verbatim>\<open>gfn_to_pfn_prot\<close>; an error frame ends the fault with \<open>-EFAULT\<close>; while invalidations
  are left, \<^verbatim>\<open>mmu_notifier_retry\<close> rejects the attempt, the frame is released and the
  loop starts again. The result is the frame, whether it may be written, and the events.
\<close>

primrec resolve_pfn ::
  "host_env \<Rightarrow> u64 \<Rightarrow> bool \<Rightarrow> nat \<Rightarrow> nat \<Rightarrow> event list \<Rightarrow> (u64 \<times> bool \<times> event list) option" where
  "resolve_pfn env gfn write_fault n 0 evs =
     (case pfn_prot_at env n gfn write_fault of
        None \<Rightarrow> None
      | Some (pfn, writeable) \<Rightarrow> Some (pfn, writeable, evs))"
| "resolve_pfn env gfn write_fault n (Suc left) evs =
     (case pfn_prot_at env n gfn write_fault of
        None \<Rightarrow> None
      | Some (pfn, writeable) \<Rightarrow>
          resolve_pfn env gfn write_fault (Suc n) left (evs @ [ReleasePfnClean pfn]))"

text \<open>
  \<^verbatim>\<open>kvm_mips_map_page(vcpu, gpa, write_fault, NULL, NULL)\<close>. The first argument bounds the
  passes of \<^verbatim>\<open>kvm_mips_set_pmd_huge\<close>. The result is \<open>None\<close> when that bound is too small,
  otherwise a crash or the result code \<open>err\<close>, the vcpu and the host's free pages.
\<close>

definition kvm_mips_map_page ::
  "nat \<Rightarrow> pgtable_geometry \<Rightarrow> host_env \<Rightarrow> vz_vcpu \<Rightarrow> u64 \<Rightarrow> bool
     \<Rightarrow> (crash + int \<times> vz_vcpu \<times> host_pages) option" where
  "kvm_mips_map_page passes g env vcpu gpa write_fault =
     (let exccode = drop_bit CAUSEB_EXCCODE (host_cp0_cause vcpu) AND 0x1f;
          try_fast = (exccode \<noteq> EXCCODE_TLBRI \<and> exccode \<noteq> EXCCODE_TLBXI);
          fast = (if try_fast then kvm_mips_map_page_fast g (kvm vcpu) gpa write_fault
                  else Inr (0, kvm vcpu))
      in case fast of
           Inl crash \<Rightarrow> Some (Inl crash)
         | Inr (err, vm1) \<Rightarrow>
             if try_fast \<and> err = 0 then Some (Inr (0, vcpu\<lparr>kvm := vm1\<rparr>, free_pages env))
             else
               (let gfn = drop_bit (PAGE_SHIFT g) gpa;
                    memslot = gfn_to_memslot (memslots vm1) gfn
                in case gfn_to_hva_memslot_prot g memslot gfn of
                     None \<Rightarrow> Some (Inr (err, vcpu\<lparr>kvm := vm1\<rparr>, free_pages env))
                   | Some (hva, writable) \<Rightarrow>
                       if write_fault \<and> \<not> writable
                       then Some (Inr (err, vcpu\<lparr>kvm := vm1\<rparr>, free_pages env))
                       else
                         (case vma_pagesize_at env hva of
                            None \<Rightarrow> Some (Inr (- EFAULT, vcpu\<lparr>kvm := vm1\<rparr>, free_pages env))
                          | Some vma_pagesize0 \<Rightarrow>
                              (case fault_page_size g (the memslot) hva vma_pagesize0 of
                                 (force_pte, vma_pagesize1) \<Rightarrow>
                                   (let gfn1 = (if vma_pagesize1 = PMD_SIZE g
                                                then drop_bit (PAGE_SHIFT g)
                                                       (gpa AND NOT (vma_pagesize0 - 1))
                                                else gfn)
                                    in case mmu_topup_memory_cache (nr_mem_objs env)
                                              (mmu_page_cache vcpu) KVM_MMU_CACHE_MIN_PAGES
                                              (nr_mem_objs env) (free_pages env) of
                                         Inl crash \<Rightarrow> Some (Inl crash)
                                       | Inr (err1, memcache, host1) \<Rightarrow>
                                           if err1 \<noteq> 0
                                           then Some (Inr (err1,
                                                  vcpu\<lparr>kvm := vm1, mmu_page_cache := memcache\<rparr>, host1))
                                           else
                                             (case resolve_pfn env gfn1 write_fault 0
                                                     (invalidations env) [] of
                                                None \<Rightarrow>
                                                  Some (Inr (- EFAULT,
                                                    vcpu\<lparr>kvm := vm1, mmu_page_cache := memcache\<rparr>, host1))
                                              | Some (pfn0, writeable, evs0) \<Rightarrow>
                                                  (case (if vma_pagesize1 = PAGE_SIZE g \<and> \<not> force_pte \<and>
                                                            fault_supports_huge_mapping g (the memslot) hva (PMD_SIZE g)
                                                         then transparent_hugepage_adjust g (is_thp env) pfn0 gpa
                                                         else Inr (False, pfn0, gpa, [])) of
                                                     Inl crash \<Rightarrow> Some (Inl crash)
                                                   | Inr (adjusted, pfn, gpa1, evs1) \<Rightarrow>
                                                       (let vma_pagesize = (if adjusted then PMD_SIZE g else vma_pagesize1);
                                                            prot_bits =
                                                              \<lparr>pte_pfn = 0, pte_present = True, pte_read = True,
                                                               pte_write = writeable,
                                                               pte_dirty = (writeable \<and> write_fault),
                                                               pte_young = True, pte_huge = False,
                                                               pte_cca = page_cachable_default env\<rparr>;
                                                            evs2 = evs0 @ evs1
                                                              @ (if writeable \<and> write_fault then [SetPfnDirty pfn] else []);
                                                            done_evs = [ReleasePfnClean pfn, SetPfnAccessed pfn]
                                                        in if vma_pagesize = PMD_SIZE g then
                                                             (let new_pmd = PmdLeaf (prot_bits\<lparr>pte_pfn := pfn, pte_huge := True\<rparr>);
                                                                  evs3 = evs2 @ (if writeable \<and> write_fault
                                                                                  then mark_pages_dirty g True gpa1 gfn1 else []);
                                                                  vm2 = vm1\<lparr>trace := trace vm1 @ evs3\<rparr>
                                                              in case kvm_mips_set_pmd_huge passes g vm2 (Some memcache) gpa1 new_pmd of
                                                                   None \<Rightarrow> None
                                                                 | Some (Inl crash) \<Rightarrow> Some (Inl crash)
                                                                 | Some (Inr (ret, vm3, cache3)) \<Rightarrow>
                                                                     Some (Inr (0,
                                                                       vcpu\<lparr>kvm := vm3\<lparr>trace := trace vm3 @ done_evs\<rparr>,
                                                                            mmu_page_cache := (case cache3 of Some c \<Rightarrow> c | None \<Rightarrow> memcache)\<rparr>,
                                                                       host1)))
                                                           else
                                                             (let new_pte = prot_bits\<lparr>pte_pfn := pfn\<rparr>;
                                                                  evs3 = evs2 @ (if writeable \<and> write_fault
                                                                                  then mark_pages_dirty g False gpa1 gfn1 else [])
                                                              in case kvm_mips_pte_for_gpa g (gpa_mm_pgd vm1) (Some memcache) gpa1 of
                                                                   Inl crash \<Rightarrow> Some (Inl crash)
                                                                 | Inr (None, pgd2, cache2) \<Rightarrow> Some (Inl WildPointer)
                                                                 | Inr (Some ptep, pgd2, cache2) \<Rightarrow>
                                                                     Some (Inr (0,
                                                                       vcpu\<lparr>kvm := vm1\<lparr>gpa_mm_pgd := set_pte pgd2 ptep new_pte,
                                                                                     trace := trace vm1 @ evs3 @ done_evs\<rparr>,
                                                                            mmu_page_cache := (case cache2 of Some c \<Rightarrow> c | None \<Rightarrow> memcache)\<rparr>,
                                                                       host1)))))))))))"

chapter \<open>Properties\<close>

section \<open>The node allocator: what \<^verbatim>\<open>mmu_topup_memory_cache\<close> guarantees\<close>

text \<open>The host supplies \<open>n\<close> pages in a row: its next \<open>n\<close> answers exist and are not \<^verbatim>\<open>NULL\<close>.\<close>

definition host_supplies :: "host_pages \<Rightarrow> nat \<Rightarrow> bool" where
  "host_supplies host n = (n \<le> length host \<and> 0 \<notin> set (take n host))"

lemma host_supplies_0 [simp]: "host_supplies host 0"
  by (simp add: host_supplies_def)

lemma host_supplies_Nil [simp]: "host_supplies [] n = (n = 0)"
  by (auto simp add: host_supplies_def)

lemma host_supplies_Cons:
  "host_supplies (p # host) (Suc n) = (p \<noteq> 0 \<and> host_supplies host n)"
  by (auto simp add: host_supplies_def)

text \<open>
  The pool after the pages \<open>got\<close> were stored from slot \<open>n\<close> on, in the order in which they
  were obtained; and the pages that a run of at most \<open>need\<close> requests obtains from the
  host: its answers up to the first \<^verbatim>\<open>NULL\<close>.
\<close>

definition pool_with :: "(int \<Rightarrow> u64) \<Rightarrow> int \<Rightarrow> u64 list \<Rightarrow> int \<Rightarrow> u64" where
  "pool_with objs n got =
     (\<lambda>k. if n \<le> k \<and> k < n + int (length got) then got ! nat (k - n) else objs k)"

definition pages_got :: "host_pages \<Rightarrow> nat \<Rightarrow> u64 list" where
  "pages_got host need = takeWhile (\<lambda>p. p \<noteq> 0) (take need host)"

lemma pool_with_Nil [simp]: "pool_with objs n [] = objs"
  by (auto simp add: pool_with_def fun_eq_iff)

lemma pool_with_Cons: "pool_with (objs(n := p)) (n + 1) got = pool_with objs n (p # got)"
proof
  fix k
  show "pool_with (objs(n := p)) (n + 1) got k = pool_with objs n (p # got) k"
  proof (cases "n + 1 \<le> k \<and> k < n + 1 + int (length got)")
    case True
    then have "nat (k - n) = Suc (nat (k - (n + 1)))" by arith
    with True show ?thesis by (simp add: pool_with_def)
  next
    case False
    then show ?thesis by (auto simp add: pool_with_def)
  qed
qed

lemma pool_with_Cons_if:
  "pool_with (\<lambda>a. if a = n then p else objs a) (n + 1) got = pool_with objs n (p # got)"
  using pool_with_Cons [of objs n p got] by (simp add: fun_upd_def)

lemma pages_got_supplies:
  "host_supplies host need = (length (pages_got host need) = need)"
proof (induction host arbitrary: need)
  case Nil
  then show ?case by (auto simp add: pages_got_def)
next
  case (Cons p host)
  show ?case
  proof (cases need)
    case 0
    then show ?thesis by (simp add: pages_got_def)
  next
    case (Suc n)
    with Cons.IH [of n] show ?thesis
      by (simp add: host_supplies_Cons pages_got_def)
  qed
qed

lemma mmu_topup_loop_exact:
  "mmu_topup_loop m c host =
     (let need = nat (m - nobjs c); got = pages_got host need
      in (if length got = need then 0 else - ENOMEM,
          c\<lparr>objects := pool_with (objects c) (nobjs c) got,
            nobjs := nobjs c + int (length got)\<rparr>,
          drop (if length got = need then need else Suc (length got)) host))"
proof (induction host arbitrary: c)
  case Nil
  then show ?case by (simp add: Let_def pages_got_def)
next
  case (Cons p host)
  show ?case
  proof (cases "nobjs c < m")
    case False
    then show ?thesis by (simp add: Let_def pages_got_def)
  next
    case True
    then have n: "nat (m - nobjs c) = Suc (nat (m - (nobjs c + 1)))" by simp
    show ?thesis
    proof (cases "p = 0")
      case True
      with \<open>nobjs c < m\<close> show ?thesis by (simp add: Let_def pages_got_def n)
    next
      case False
      let ?c = "c\<lparr>objects := (objects c)(nobjs c := p), nobjs := nobjs c + 1\<rparr>"
      have "mmu_topup_loop m c (p # host) = mmu_topup_loop m ?c host"
        using False True by simp
      also note Cons.IH [of ?c]
      finally show ?thesis
        using False True by (simp add: Let_def pages_got_def n pool_with_Cons pool_with_Cons_if)
    qed
  qed
qed

text \<open>
  C6, as the code has it. For \<open>min \<le> max \<le> KVM_NR_MEM_OBJS\<close> the call does not crash.
  A pool that already holds \<open>min\<close> nodes is left as it is, the host is not asked, and the
  result is 0. Otherwise the call asks the host for one page after the other and stores
  each page at the next free slot of the pool, until the pool holds \<open>max\<close> nodes or the
  host answers \<^verbatim>\<open>NULL\<close>. When the host supplies the \<open>max - nobjs\<close> missing pages the result
  is 0, the pool holds exactly \<open>max\<close> nodes and exactly these pages were taken from the
  host. When it does not, the result is \<open>-ENOMEM\<close> at the first request that fails: the
  pages obtained before it stay in the pool, fewer than \<open>max\<close>, and no request follows
  the failed one. Whenever the result is 0 the pool holds at least \<open>min\<close> nodes.
\<close>

theorem mmu_topup_memory_cache_contract:
  assumes "min_objs \<le> max_objs" and "max_objs \<le> NR"
  shows "\<exists>r c' host'.
     mmu_topup_memory_cache NR c min_objs max_objs host = Inr (r, c', host') \<and>
     (if min_objs \<le> nobjs c then r = 0 \<and> c' = c \<and> host' = host
      else
        c' = c\<lparr>objects := pool_with (objects c) (nobjs c)
                             (pages_got host (nat (max_objs - nobjs c))),
                nobjs := nobjs c + int (length (pages_got host (nat (max_objs - nobjs c))))\<rparr> \<and>
        (if host_supplies host (nat (max_objs - nobjs c))
         then r = 0 \<and> nobjs c' = max_objs \<and>
              pages_got host (nat (max_objs - nobjs c)) = take (nat (max_objs - nobjs c)) host \<and>
              host' = drop (nat (max_objs - nobjs c)) host
         else r = - ENOMEM \<and> nobjs c \<le> nobjs c' \<and> nobjs c' < max_objs \<and>
              host' = drop (Suc (length (pages_got host (nat (max_objs - nobjs c))))) host)) \<and>
     (r = 0 \<longrightarrow> min_objs \<le> nobjs c')"
proof (cases "min_objs \<le> nobjs c")
  case True
  with assms show ?thesis by (simp add: mmu_topup_memory_cache_def)
next
  case False
  let ?need = "nat (max_objs - nobjs c)"
  let ?got = "pages_got host ?need"
  let ?r = "if length ?got = ?need then 0 else - ENOMEM"
  let ?c = "c\<lparr>objects := pool_with (objects c) (nobjs c) ?got,
                nobjs := nobjs c + int (length ?got)\<rparr>"
  let ?h = "drop (if length ?got = ?need then ?need else Suc (length ?got)) host"
  have len: "length ?got \<le> ?need"
    unfolding pages_got_def
    by (rule order_trans [OF length_takeWhile_le]) simp
  from False assms have need: "int ?need = max_objs - nobjs c" by simp
  have eq: "mmu_topup_memory_cache NR c min_objs max_objs host = Inr (?r, ?c, ?h)"
    using False assms
    by (simp only: mmu_topup_memory_cache_def mmu_topup_loop_exact Let_def) simp
  have sup: "host_supplies host ?need = (length ?got = ?need)"
    by (rule pages_got_supplies)
  have all: "?got = take ?need host" if "host_supplies host ?need"
    using that unfolding pages_got_def host_supplies_def
    by (auto simp add: takeWhile_eq_all_conv)
  have n_ok: "nobjs ?c = max_objs" if "length ?got = ?need"
    using that need by simp
  have n_less: "nobjs ?c < max_objs" "nobjs c \<le> nobjs ?c" if "length ?got \<noteq> ?need"
    using that len need by simp_all
  show ?thesis
  proof (intro exI conjI)
    show "mmu_topup_memory_cache NR c min_objs max_objs host = Inr (?r, ?c, ?h)"
      by (rule eq)
    show "if min_objs \<le> nobjs c then ?r = 0 \<and> ?c = c \<and> ?h = host
      else
        ?c = c\<lparr>objects := pool_with (objects c) (nobjs c) ?got,
                nobjs := nobjs c + int (length ?got)\<rparr> \<and>
        (if host_supplies host ?need
         then ?r = 0 \<and> nobjs ?c = max_objs \<and> ?got = take ?need host \<and> ?h = drop ?need host
         else ?r = - ENOMEM \<and> nobjs c \<le> nobjs ?c \<and> nobjs ?c < max_objs \<and>
              ?h = drop (Suc (length ?got)) host)"
    proof (cases "host_supplies host ?need")
      case True
      with sup have l: "length ?got = ?need" by simp
      from all [OF True] n_ok [OF l] l True False show ?thesis
        by (simp only: if_True if_False simp_thms)
    next
      case no: False
      with sup have l: "length ?got \<noteq> ?need" by simp
      from n_less [OF l] l no False show ?thesis
        by (simp only: if_True if_False simp_thms)
    qed
    show "?r = 0 \<longrightarrow> min_objs \<le> nobjs ?c"
    proof
      assume "?r = 0"
      then have "length ?got = ?need" by (simp add: ENOMEM_def split: if_splits)
      from n_ok [OF this] assms show "min_objs \<le> nobjs ?c" by simp
    qed
  qed
qed

text \<open>
  The theorem at work: a pool of one node topped up to four from a host with four
  pages, and from a host whose second answer is \<^verbatim>\<open>NULL\<close>.
\<close>

theorem mmu_topup_memory_cache_contract_witness:
  "(2 :: int) \<le> 4 \<and> (4 :: int) \<le> 4 \<and>
   (\<exists>r c' host'.
      mmu_topup_memory_cache 4 \<lparr>nobjs = 1, objects = (\<lambda>_. 0)\<rparr> 2 4 [4096, 8192, 12288, 16384]
        = Inr (r, c', host') \<and> r = 0 \<and> nobjs c' = 4 \<and> 2 \<le> nobjs c' \<and>
      objects c' 0 = 0 \<and> objects c' 1 = 4096 \<and> objects c' 2 = 8192 \<and> objects c' 3 = 12288 \<and>
      host' = [16384]) \<and>
   (\<exists>r c' host'.
      mmu_topup_memory_cache 4 \<lparr>nobjs = 1, objects = (\<lambda>_. 0)\<rparr> 2 4 [4096, 0, 12288, 16384]
        = Inr (r, c', host') \<and> r = - ENOMEM \<and> nobjs c' = 2 \<and>
      objects c' 1 = 4096 \<and> objects c' 2 = 0 \<and> host' = [12288, 16384])"
proof -
  let ?c = "\<lparr>nobjs = 1, objects = (\<lambda>_. 0)\<rparr> :: kvm_mmu_memory_cache"
  from mmu_topup_memory_cache_contract [of 2 4 4 ?c "[4096, 8192, 12288, 16384]"]
  have a: "\<exists>r c' host'.
      mmu_topup_memory_cache 4 ?c 2 4 [4096, 8192, 12288, 16384]
        = Inr (r, c', host') \<and> r = 0 \<and> nobjs c' = 4 \<and> 2 \<le> nobjs c' \<and>
      objects c' 0 = 0 \<and> objects c' 1 = 4096 \<and> objects c' 2 = 8192 \<and> objects c' 3 = 12288 \<and>
      host' = [16384]"
    by (simp add: host_supplies_def pages_got_def pool_with_def)
  from mmu_topup_memory_cache_contract [of 2 4 4 ?c "[4096, 0, 12288, 16384]"]
  have b: "\<exists>r c' host'.
      mmu_topup_memory_cache 4 ?c 2 4 [4096, 0, 12288, 16384]
        = Inr (r, c', host') \<and> r = - ENOMEM \<and> nobjs c' = 2 \<and>
      objects c' 1 = 4096 \<and> objects c' 2 = 0 \<and> host' = [12288, 16384]"
    by (simp add: host_supplies_def pages_got_def pool_with_def)
  from a b show ?thesis by simp
qed

text \<open>
  C6 as stated fails: with an empty pool, \<open>min = 2\<close> and \<open>max = 4\<close>, a host that supplies
  three pages and then none lets the pool reach \<open>min\<close> (it ends with 3 nodes), and the
  call still fails with \<open>-ENOMEM\<close>.
\<close>

theorem mmu_topup_fails_after_min_reached:
  "\<exists>c'. mmu_topup_memory_cache 4 \<lparr>nobjs = 0, objects = (\<lambda>_. 0)\<rparr> 2 4 [4096, 8192, 12288]
          = Inr (- ENOMEM, c', [])
        \<and> nobjs c' = 3 \<and> 2 \<le> nobjs c' \<and> host_supplies [4096, 8192, 12288] 2"
  by (simp add: mmu_topup_memory_cache_def host_supplies_def)

section \<open>Index arithmetic\<close>

lemma slice_unat:
  "unat (drop_bit s (a :: u64) AND (of_nat (2 ^ n) - 1)) = (unat a div 2 ^ s) mod 2 ^ n"
proof -
  have "(of_nat (2 ^ n) - 1 :: u64) = mask n"
    by (simp add: mask_eq_exp_minus_1)
  then have "unat (drop_bit s a AND (of_nat (2 ^ n) - 1)) = unat (take_bit n (drop_bit s a))"
    by (simp only: take_bit_eq_mask)
  also have "\<dots> = take_bit n (drop_bit s (unat a))"
  proof -
    have "take_bit 64 (unat a) = unat a"
      using unsigned_less [of a, where ?'a = nat] by (simp add: take_bit_nat_eq_self_iff)
    then show ?thesis
      by (simp add: unsigned_take_bit_eq unsigned_drop_bit_eq)
  qed
  also have "\<dots> = (unat a div 2 ^ s) mod 2 ^ n"
    by (simp only: take_bit_eq_mod drop_bit_eq_div)
  finally show ?thesis .
qed

lemma pte_index_eq: "pte_index g a = (unat a div 2 ^ PAGE_SHIFT g) mod 2 ^ pte_bits g"
  unfolding pte_index_def PTRS_PER_PTE_def by (rule slice_unat)

lemma pmd_index_eq: "pmd_index g a = (unat a div 2 ^ PMD_SHIFT g) mod 2 ^ pmd_bits g"
  unfolding pmd_index_def PTRS_PER_PMD_def by (rule slice_unat)

lemma pud_index_eq: "pud_index g a = (unat a div 2 ^ PUD_SHIFT g) mod 2 ^ pud_bits g"
  unfolding pud_index_def PTRS_PER_PUD_def by (rule slice_unat)

lemma pgd_index_eq: "pgd_index g a = (unat a div 2 ^ PGDIR_SHIFT g) mod 2 ^ pgd_bits g"
  unfolding pgd_index_def PTRS_PER_PGD_def by (rule slice_unat)



lemma unat_drop_bit_div: "unat (drop_bit s (w :: u64)) = unat w div 2 ^ s"
proof -
  have "unat (drop_bit s w) = drop_bit s (unat w)" by (rule unat_drop_bit_eq)
  also have "\<dots> = unat w div 2 ^ s" by (rule drop_bit_eq_div)
  finally show ?thesis .
qed

section \<open>Loops over the entries of a node\<close>

lemma for_each_index_and:
  assumes "for_each_index (\<and>) body idxs (acc, tab) = Inr (acc', tab')" and "distinct idxs"
  shows "(\<forall>i \<in> set idxs. \<exists>r. body i (tab i) = Inr (r, tab' i))
       \<and> (\<forall>i. i \<notin> set idxs \<longrightarrow> tab' i = tab i)
       \<and> (acc' = (acc \<and> (\<forall>i \<in> set idxs. \<forall>r e. body i (tab i) = Inr (r, e) \<longrightarrow> r)))"
  using assms
proof (induction idxs arbitrary: acc tab)
  case Nil
  then show ?case by simp
next
  case (Cons i idxs)
  from Cons.prems(1) obtain r e where b: "body i (tab i) = Inr (r, e)"
    and rest: "for_each_index (\<and>) body idxs (acc \<and> r, tab(i := e)) = Inr (acc', tab')"
    by (auto split: sum.splits)
  from Cons.prems(2) have d: "distinct idxs" and ni: "i \<notin> set idxs" by auto
  note IH = Cons.IH [OF rest d]
  have same: "\<And>k. k \<in> set idxs \<Longrightarrow> (tab(i := e)) k = tab k" using ni by auto
  from IH have i: "tab' i = e" using ni by auto
  show ?case
  proof (intro conjI)
    show "\<forall>k\<in>set (i # idxs). \<exists>r. body k (tab k) = Inr (r, tab' k)"
      using IH b i same by auto
    show "\<forall>k. k \<notin> set (i # idxs) \<longrightarrow> tab' k = tab k"
      using IH by auto
    show "acc' = (acc \<and> (\<forall>k\<in>set (i # idxs). \<forall>r e. body k (tab k) = Inr (r, e) \<longrightarrow> r))"
      using IH b same by auto
  qed
qed

lemma for_each_index_entry:
  assumes "for_each_index (\<and>) body idxs (acc, tab) = Inr (acc', tab')" and "distinct idxs"
    and "i \<in> set idxs"
  shows "\<exists>r. body i (tab i) = Inr (r, tab' i)"
  using for_each_index_and [OF assms(1,2)] assms(3) by blast

lemma for_each_index_frame:
  assumes "for_each_index (\<and>) body idxs (acc, tab) = Inr (acc', tab')" and "distinct idxs"
    and "i \<notin> set idxs"
  shows "tab' i = tab i"
  using for_each_index_and [OF assms(1,2)] assms(3) by blast

lemma for_each_index_flag_init:
  assumes "for_each_index (\<and>) body idxs (acc, tab) = Inr (acc', tab')" and "distinct idxs"
    and "acc'"
  shows "acc"
  using for_each_index_and [OF assms(1,2)] assms(3) by blast

lemma for_each_index_flag_entry:
  assumes "for_each_index (\<and>) body idxs (acc, tab) = Inr (acc', tab')" and "distinct idxs"
    and "acc'" and "i \<in> set idxs" and "body i (tab i) = Inr (r, e)"
  shows "r"
  using for_each_index_and [OF assms(1,2)] assms(3,4,5) by blast

lemma fold_clear:
  "distinct idxs \<Longrightarrow>
   fold (\<lambda>i t. if \<not> P (t i) then t else t(i := z)) idxs t l =
     (if l \<in> set idxs \<and> P (t l) then z else t l)"
  by (induction idxs arbitrary: t) auto

lemma flush_pte_snd:
  "snd (kvm_mips_flush_gpa_pte g t s e) l =
     (if pte_index g s \<le> l \<and> l \<le> pte_index g e \<and> pte_present (t l) then pte_zero else t l)"
  by (auto simp add: kvm_mips_flush_gpa_pte_def Let_def fold_clear)

lemma flush_pte_fst:
  "fst (kvm_mips_flush_gpa_pte g t s e) = (pte_index g s = 0 \<and> pte_index g e = PTRS_PER_PTE g - 1)"
  by (simp add: kvm_mips_flush_gpa_pte_def Let_def)

section \<open>Ranges of page numbers, level by level\<close>

lemma le_divmod_lex:
  fixes S X M :: nat
  assumes "0 < M"
  shows "(S \<le> X) = (S div M < X div M \<or> (S div M = X div M \<and> S mod M \<le> X mod M))"
proof -
  have S: "S = M * (S div M) + S mod M" and X: "X = M * (X div M) + X mod M" by simp_all
  have sm: "S mod M < M" and xm: "X mod M < M" using assms by simp_all
  show ?thesis
  proof (cases "S div M < X div M")
    case True
    then have "S div M + 1 \<le> X div M" by simp
    then have "M * (S div M + 1) \<le> M * (X div M)" by (rule mult_le_mono2)
    then have "M * (S div M) + M \<le> M * (X div M)" by (simp add: algebra_simps)
    with sm have "M * (S div M) + S mod M \<le> M * (X div M) + X mod M" by linarith
    then have "S \<le> X" by simp
    then show ?thesis using True by simp
  next
    case False
    show ?thesis
    proof (cases "S div M = X div M")
      case True
      have "(S \<le> X) = (M * (S div M) + S mod M \<le> M * (X div M) + X mod M)" by simp
      also have "\<dots> = (S mod M \<le> X mod M)" unfolding True by (rule add_le_cancel_left)
      finally show ?thesis using True by simp
    next
      case False
      with \<open>\<not> S div M < X div M\<close> have lt: "X div M < S div M" by simp
      have "\<not> S \<le> X"
      proof
        assume "S \<le> X"
        then have "S div M \<le> X div M" by (rule div_le_mono)
        with lt show False by simp
      qed
      then show ?thesis using False \<open>\<not> S div M < X div M\<close> by simp
    qed
  qed
qed

lemma split_range:
  fixes S X E M :: nat
  assumes "0 < M"
  shows "(S \<le> X \<and> X \<le> E) =
     (S div M \<le> X div M \<and> X div M \<le> E div M \<and>
      (if X div M = S div M then S mod M else 0) \<le> X mod M \<and>
      X mod M \<le> (if X div M = E div M then E mod M else M - 1))"
proof -
  have "X mod M < M" using assms by simp
  then have xm: "X mod M \<le> M - 1" by simp
  show ?thesis
    unfolding le_divmod_lex [OF assms, of S X] le_divmod_lex [OF assms, of X E]
    using xm by auto
qed

definition page_nr :: "pgtable_geometry \<Rightarrow> u64 \<Rightarrow> nat" where
  "page_nr g a = unat a div 2 ^ PAGE_SHIFT g"

definition low_bits :: "pgtable_geometry \<Rightarrow> nat \<Rightarrow> u64 \<Rightarrow> nat" where
  "low_bits g n a = page_nr g a mod 2 ^ n"

definition in_range :: "pgtable_geometry \<Rightarrow> nat \<Rightarrow> u64 \<Rightarrow> u64 \<Rightarrow> u64 \<Rightarrow> bool" where
  "in_range g n s e x = (low_bits g n s \<le> low_bits g n x \<and> low_bits g n x \<le> low_bits g n e)"

lemma mod_div_pow:
  fixes X :: nat
  shows "(X mod 2 ^ (m + n)) div 2 ^ m = (X div 2 ^ m) mod 2 ^ n"
  by (simp add: power_add mod_mult2_eq)

lemma mod_mod_pow:
  fixes X :: nat
  shows "(X mod 2 ^ (m + n)) mod 2 ^ m = X mod 2 ^ m"
  by (simp add: power_add mod_mod_cancel)

lemma low_bits_mod: "low_bits g (m + n) a mod 2 ^ m = low_bits g m a"
  by (simp add: low_bits_def mod_mod_pow)

lemma low_bits_less: "low_bits g n a < 2 ^ n"
  by (simp add: low_bits_def)

lemma pte_index_low: "pte_index g a = low_bits g (pte_bits g) a"
  by (simp add: pte_index_eq low_bits_def page_nr_def)

lemma pmd_index_page_nr:
  "pmd_index g a = (page_nr g a div 2 ^ pte_bits g) mod 2 ^ pmd_bits g"
  unfolding pmd_index_eq page_nr_def PMD_SHIFT_def power_add div_mult2_eq ..

lemma pud_index_page_nr:
  "pud_index g a = (page_nr g a div 2 ^ (pte_bits g + pmd_bits g)) mod 2 ^ pud_bits g"
  unfolding pud_index_eq page_nr_def PUD_SHIFT_def PMD_SHIFT_def power_add div_mult2_eq ..

lemma pgd_index_page_nr:
  "pgd_index g a =
     (page_nr g a div 2 ^ (pte_bits g + pmd_bits g + pud_bits g)) mod 2 ^ pgd_bits g"
  unfolding pgd_index_eq page_nr_def PGDIR_SHIFT_def PUD_SHIFT_def PMD_SHIFT_def power_add
    div_mult2_eq ..

lemma pmd_index_low:
  "pmd_index g a = low_bits g (pte_bits g + pmd_bits g) a div 2 ^ pte_bits g"
  unfolding pmd_index_page_nr low_bits_def by (rule mod_div_pow [symmetric])

lemma pud_index_low:
  "pud_index g a =
     low_bits g (pte_bits g + pmd_bits g + pud_bits g) a div 2 ^ (pte_bits g + pmd_bits g)"
  unfolding pud_index_page_nr low_bits_def by (rule mod_div_pow [symmetric])

lemma pgd_index_low:
  "pgd_index g a =
     low_bits g (pte_bits g + pmd_bits g + pud_bits g + pgd_bits g) a
       div 2 ^ (pte_bits g + pmd_bits g + pud_bits g)"
  unfolding pgd_index_page_nr low_bits_def by (rule mod_div_pow [symmetric])

lemma low_bits_zero: "low_bits g n 0 = 0"
  by (simp add: low_bits_def page_nr_def)

lemma low_bits_ones:
  assumes "PAGE_SHIFT g + n \<le> 64"
  shows "low_bits g n (- 1) = 2 ^ n - 1"
proof -
  let ?s = "PAGE_SHIFT g"
  have "unat (- 1 :: u64) = mask 64"
    by (simp add: unsigned_minus_1_eq_mask)
  then have "low_bits g n (- 1) = take_bit n (drop_bit ?s (mask 64 :: nat))"
    by (simp add: low_bits_def page_nr_def take_bit_eq_mod drop_bit_eq_div)
  also have "\<dots> = mask (min n (64 - ?s))"
    by (simp only: drop_bit_mask_eq take_bit_of_mask)
  also have "min n (64 - ?s) = n" using assms by simp
  finally show ?thesis by (simp add: mask_eq_exp_minus_1)
qed

lemma in_range_split:
  assumes "PAGE_SHIFT g + m \<le> 64"
  shows "in_range g (m + n) s e x =
     (let idx = (\<lambda>a. low_bits g (m + n) a div 2 ^ m); k = idx x
      in idx s \<le> k \<and> k \<le> idx e \<and>
         in_range g m (if k = idx s then s else 0) (if k = idx e then e else - 1) x)"
proof -
  have M: "(0 :: nat) < 2 ^ m" by simp
  show ?thesis
    unfolding in_range_def Let_def
    by (subst split_range [OF M])
       (auto simp add: low_bits_mod low_bits_zero low_bits_ones [OF assms])
qed

section \<open>Unmapping a range: what the traversal leaves\<close>

definition pmd_unmapped :: "pmd_t \<Rightarrow> nat \<Rightarrow> bool" where
  "pmd_unmapped e l =
     (case e of
        PmdNone \<Rightarrow> True
      | PmdLeaf p \<Rightarrow> pte_huge p \<and> \<not> pte_present p
      | PmdTable t \<Rightarrow> \<not> pte_present (t l))"

definition pud_unmapped :: "pud_t \<Rightarrow> nat \<Rightarrow> nat \<Rightarrow> bool" where
  "pud_unmapped e k l =
     (case e of PudNone \<Rightarrow> True | PudTable pmd \<Rightarrow> pmd_unmapped (pmd k) l)"

lemma pte_present_zero [simp]: "\<not> pte_present pte_zero"
  by (simp add: pte_zero_def)

lemma in_range_pte: "in_range g (pte_bits g) s e x =
   (pte_index g s \<le> pte_index g x \<and> pte_index g x \<le> pte_index g e)"
  by (simp add: in_range_def pte_index_low)

lemma in_range_pmd:
  assumes "PAGE_SHIFT g + pte_bits g \<le> 64"
  shows "in_range g (pte_bits g + pmd_bits g) s e x =
     (pmd_index g s \<le> pmd_index g x \<and> pmd_index g x \<le> pmd_index g e \<and>
      in_range g (pte_bits g)
        (if pmd_index g x = pmd_index g s then s else 0)
        (if pmd_index g x = pmd_index g e then e else - 1) x)"
  unfolding in_range_split [OF assms] pmd_index_low Let_def ..

lemma in_range_pud:
  assumes "PAGE_SHIFT g + (pte_bits g + pmd_bits g) \<le> 64"
  shows "in_range g (pte_bits g + pmd_bits g + pud_bits g) s e x =
     (pud_index g s \<le> pud_index g x \<and> pud_index g x \<le> pud_index g e \<and>
      in_range g (pte_bits g + pmd_bits g)
        (if pud_index g x = pud_index g s then s else 0)
        (if pud_index g x = pud_index g e then e else - 1) x)"
  unfolding in_range_split [OF assms] pud_index_low Let_def ..

lemma in_range_pgd:
  assumes "PAGE_SHIFT g + (pte_bits g + pmd_bits g + pud_bits g) \<le> 64"
  shows "in_range g (pte_bits g + pmd_bits g + pud_bits g + pgd_bits g) s e x =
     (pgd_index g s \<le> pgd_index g x \<and> pgd_index g x \<le> pgd_index g e \<and>
      in_range g (pte_bits g + pmd_bits g + pud_bits g)
        (if pgd_index g x = pgd_index g s then s else 0)
        (if pgd_index g x = pgd_index g e then e else - 1) x)"
  unfolding in_range_split [OF assms] pgd_index_low Let_def ..

lemma pte_index_less: "pte_index g a < PTRS_PER_PTE g"
  by (simp add: pte_index_eq PTRS_PER_PTE_def)

lemma pmd_index_less: "pmd_index g a < PTRS_PER_PMD g"
  by (simp add: pmd_index_eq PTRS_PER_PMD_def)

lemma pud_index_less: "pud_index g a < PTRS_PER_PUD g"
  by (simp add: pud_index_eq PTRS_PER_PUD_def)

lemma pgd_index_less: "pgd_index g a < PTRS_PER_PGD g"
  by (simp add: pgd_index_eq PTRS_PER_PGD_def)

subsection \<open>In range\<close>

lemma flush_pte_in:
  "in_range g (pte_bits g) s e x \<Longrightarrow>
   \<not> pte_present (snd (kvm_mips_flush_gpa_pte g t s e) (pte_index g x))"
  by (simp add: flush_pte_snd in_range_pte)

lemma flush_pmd_entry_in:
  assumes "in_range g (pte_bits g) s e x"
    and "kvm_mips_flush_gpa_pmd_entry g s e ent = Inr (r, ent')"
  shows "pmd_unmapped ent' (pte_index g x)"
proof (cases ent)
  case PmdNone
  with assms(2) show ?thesis
    by (simp add: kvm_mips_flush_gpa_pmd_entry_def pmd_present_def pmd_unmapped_def)
next
  case (PmdLeaf p)
  with assms(2) show ?thesis
    by (auto simp add: kvm_mips_flush_gpa_pmd_entry_def pmd_present_def pmd_huge_def
        pmd_unmapped_def split: if_splits)
next
  case (PmdTable t)
  with assms(2) flush_pte_in [OF assms(1), of t] show ?thesis
    by (auto simp add: kvm_mips_flush_gpa_pmd_entry_def pmd_present_def pmd_huge_def
        pmd_unmapped_def split: if_splits prod.splits)
qed

lemma flush_pmd_in:
  assumes g: "PAGE_SHIFT g + pte_bits g \<le> 64"
    and r: "in_range g (pte_bits g + pmd_bits g) s e x"
    and f: "kvm_mips_flush_gpa_pmd g pmd s e = Inr (sf, pmd')"
  shows "pmd_unmapped (pmd' (pmd_index g x)) (pte_index g x)"
proof -
  let ?k = "pmd_index g x"
  from r have k: "?k \<in> set [pmd_index g s ..< Suc (pmd_index g e)]"
    and c: "in_range g (pte_bits g) (if ?k = pmd_index g s then s else 0)
              (if ?k = pmd_index g e then e else - 1) x"
    unfolding in_range_pmd [OF g] by auto
  from for_each_index_and [OF f [unfolded kvm_mips_flush_gpa_pmd_def Let_def]] k
  obtain r where "kvm_mips_flush_gpa_pmd_entry g (if ?k = pmd_index g s then s else 0)
      (if ?k = pmd_index g e then e else - 1) (pmd ?k) = Inr (r, pmd' ?k)"
    by auto
  from flush_pmd_entry_in [OF c this] show ?thesis .
qed

lemma flush_pud_entry_in:
  assumes g: "PAGE_SHIFT g + pte_bits g \<le> 64"
    and r: "in_range g (pte_bits g + pmd_bits g) s e x"
    and f: "kvm_mips_flush_gpa_pud_entry g s e ent = Inr (r, ent')"
  shows "pud_unmapped ent' (pmd_index g x) (pte_index g x)"
proof (cases ent)
  case PudNone
  with f show ?thesis
    by (simp add: kvm_mips_flush_gpa_pud_entry_def pud_present_def pud_none_def pud_unmapped_def)
next
  case (PudTable pmd)
  with f flush_pmd_in [OF g r, of pmd] show ?thesis
    by (auto simp add: kvm_mips_flush_gpa_pud_entry_def pud_present_def pud_none_def
        pud_unmapped_def split: if_splits sum.splits)
qed

lemma flush_pud_in:
  assumes g: "PAGE_SHIFT g + (pte_bits g + pmd_bits g) \<le> 64"
    and r: "in_range g (pte_bits g + pmd_bits g + pud_bits g) s e x"
    and f: "kvm_mips_flush_gpa_pud g pud s e = Inr (sf, pud')"
  shows "pud_unmapped (pud' (pud_index g x)) (pmd_index g x) (pte_index g x)"
proof -
  let ?j = "pud_index g x"
  from g have g1: "PAGE_SHIFT g + pte_bits g \<le> 64" by simp
  from r have j: "?j \<in> set [pud_index g s ..< Suc (pud_index g e)]"
    and c: "in_range g (pte_bits g + pmd_bits g) (if ?j = pud_index g s then s else 0)
              (if ?j = pud_index g e then e else - 1) x"
    unfolding in_range_pud [OF g] by auto
  from for_each_index_and [OF f [unfolded kvm_mips_flush_gpa_pud_def Let_def]] j
  obtain r where "kvm_mips_flush_gpa_pud_entry g (if ?j = pud_index g s then s else 0)
      (if ?j = pud_index g e then e else - 1) (pud ?j) = Inr (r, pud' ?j)"
    by auto
  from flush_pud_entry_in [OF g1 c this] show ?thesis .
qed

lemma flush_pgd_entry_in:
  assumes g: "PAGE_SHIFT g + (pte_bits g + pmd_bits g) \<le> 64"
    and r: "in_range g (pte_bits g + pmd_bits g + pud_bits g) s e x"
    and f: "kvm_mips_flush_gpa_pgd_entry g s e ent = Inr (r, ent')"
  shows "pud_unmapped (ent' (pud_index g x)) (pmd_index g x) (pte_index g x)"
  using f flush_pud_in [OF g r, of ent]
  by (auto simp add: kvm_mips_flush_gpa_pgd_entry_def pgd_present_def pgd_clear_def
      split: if_splits sum.splits)

lemma flush_pgd_in:
  assumes g: "PAGE_SHIFT g + (pte_bits g + pmd_bits g + pud_bits g) \<le> 64"
    and r: "in_range g (pte_bits g + pmd_bits g + pud_bits g + pgd_bits g) s e x"
    and f: "kvm_mips_flush_gpa_pgd g pgd s e = Inr (sf, pgd')"
  shows "pud_unmapped (pgd' (pgd_index g x) (pud_index g x)) (pmd_index g x) (pte_index g x)"
proof -
  let ?i = "pgd_index g x"
  from g have g1: "PAGE_SHIFT g + (pte_bits g + pmd_bits g) \<le> 64" by simp
  from r have i: "?i \<in> set [pgd_index g s ..< Suc (pgd_index g e)]"
    and c: "in_range g (pte_bits g + pmd_bits g + pud_bits g) (if ?i = pgd_index g s then s else 0)
              (if ?i = pgd_index g e then e else - 1) x"
    unfolding in_range_pgd [OF g] by auto
  from for_each_index_and [OF f [unfolded kvm_mips_flush_gpa_pgd_def Let_def]] i
  obtain r where "kvm_mips_flush_gpa_pgd_entry g (if ?i = pgd_index g s then s else 0)
      (if ?i = pgd_index g e then e else - 1) (pgd ?i) = Inr (r, pgd' ?i)"
    by auto
  from flush_pgd_entry_in [OF g1 c this] show ?thesis .
qed

subsection \<open>Out of range\<close>

lemma flush_pte_out:
  assumes "\<not> in_range g (pte_bits g) s e x"
  shows "\<not> fst (kvm_mips_flush_gpa_pte g t s e)"
    and "snd (kvm_mips_flush_gpa_pte g t s e) (pte_index g x) = t (pte_index g x)"
proof -
  from assms have o: "pte_index g x < pte_index g s \<or> pte_index g e < pte_index g x"
    by (auto simp add: in_range_pte)
  with pte_index_less [of g x] show "\<not> fst (kvm_mips_flush_gpa_pte g t s e)"
    by (auto simp add: flush_pte_fst)
  from o show "snd (kvm_mips_flush_gpa_pte g t s e) (pte_index g x) = t (pte_index g x)"
    by (auto simp add: flush_pte_snd)
qed

lemma flush_pmd_entry_out:
  assumes "\<not> in_range g (pte_bits g) s e x"
    and "kvm_mips_flush_gpa_pmd_entry g s e (PmdTable t) = Inr (r, ent')"
  shows "\<not> r \<and> (\<exists>t'. ent' = PmdTable t' \<and> t' (pte_index g x) = t (pte_index g x))"
  using assms(2) flush_pte_out [OF assms(1), of t]
  by (auto simp add: kvm_mips_flush_gpa_pmd_entry_def pmd_present_def pmd_huge_def
      split: prod.splits if_splits)

lemma flush_pmd_out:
  assumes g: "PAGE_SHIFT g + pte_bits g \<le> 64"
    and r: "\<not> in_range g (pte_bits g + pmd_bits g) s e x"
    and t: "pmd (pmd_index g x) = PmdTable t"
    and f: "kvm_mips_flush_gpa_pmd g pmd s e = Inr (sf, pmd')"
  shows "\<not> sf \<and> (\<exists>t'. pmd' (pmd_index g x) = PmdTable t' \<and> t' (pte_index g x) = t (pte_index g x))"
proof -
  let ?k = "pmd_index g x"
  let ?s = "\<lambda>k. if k = pmd_index g s then s else 0"
  let ?e = "\<lambda>k. if k = pmd_index g e then e else - 1"
  note F = f [unfolded kvm_mips_flush_gpa_pmd_def Let_def]
  have D: "distinct [pmd_index g s ..< Suc (pmd_index g e)]" by simp
  show ?thesis
  proof (cases "?k \<in> set [pmd_index g s ..< Suc (pmd_index g e)]")
    case True
    with r have c: "\<not> in_range g (pte_bits g) (?s ?k) (?e ?k) x"
      unfolding in_range_pmd [OF g] by auto
    from for_each_index_entry [OF F D True] obtain r where b:
      "kvm_mips_flush_gpa_pmd_entry g (?s ?k) (?e ?k) (pmd ?k) = Inr (r, pmd' ?k)"
      by blast
    from flush_pmd_entry_out [OF c b [unfolded t]]
    have "\<not> r" and "\<exists>t'. pmd' ?k = PmdTable t' \<and> t' (pte_index g x) = t (pte_index g x)"
      by auto
    moreover from for_each_index_flag_entry [OF F D _ True b] \<open>\<not> r\<close> have "\<not> sf" by blast
    ultimately show ?thesis by simp
  next
    case False
    with for_each_index_frame [OF F D] have "pmd' ?k = pmd ?k" by blast
    moreover from False pmd_index_less [of g x]
    have "\<not> (pmd_index g s = 0 \<and> pmd_index g e = PTRS_PER_PMD g - 1)" by auto
    with for_each_index_flag_init [OF F D] have "\<not> sf" by blast
    ultimately show ?thesis using t by simp
  qed
qed

lemma flush_pud_entry_out:
  assumes g: "PAGE_SHIFT g + pte_bits g \<le> 64"
    and r: "\<not> in_range g (pte_bits g + pmd_bits g) s e x"
    and t: "pmd (pmd_index g x) = PmdTable t"
    and f: "kvm_mips_flush_gpa_pud_entry g s e (PudTable pmd) = Inr (r, ent')"
  shows "\<not> r \<and> (\<exists>pmd' t'. ent' = PudTable pmd' \<and> pmd' (pmd_index g x) = PmdTable t' \<and>
      t' (pte_index g x) = t (pte_index g x))"
proof (cases "kvm_mips_flush_gpa_pmd g pmd s e")
  case (Inl c)
  with f show ?thesis
    by (simp add: kvm_mips_flush_gpa_pud_entry_def pud_present_def pud_none_def)
next
  case (Inr p)
  obtain sf pmd' where p: "p = (sf, pmd')" by (cases p)
  from flush_pmd_out [where pmd = pmd and t = t, OF g r t Inr [unfolded p]]
  have "\<not> sf" and "\<exists>t'. pmd' (pmd_index g x) = PmdTable t' \<and>
      t' (pte_index g x) = t (pte_index g x)"
    by simp_all
  with f Inr p show ?thesis
    by (auto simp add: kvm_mips_flush_gpa_pud_entry_def pud_present_def pud_none_def)
qed

lemma flush_pud_out:
  assumes g: "PAGE_SHIFT g + (pte_bits g + pmd_bits g) \<le> 64"
    and r: "\<not> in_range g (pte_bits g + pmd_bits g + pud_bits g) s e x"
    and p: "pud (pud_index g x) = PudTable pmd"
    and t: "pmd (pmd_index g x) = PmdTable t"
    and f: "kvm_mips_flush_gpa_pud g pud s e = Inr (sf, pud')"
  shows "\<not> sf \<and> (\<exists>pmd' t'. pud' (pud_index g x) = PudTable pmd' \<and>
      pmd' (pmd_index g x) = PmdTable t' \<and> t' (pte_index g x) = t (pte_index g x))"
proof -
  let ?j = "pud_index g x"
  let ?s = "\<lambda>k. if k = pud_index g s then s else 0"
  let ?e = "\<lambda>k. if k = pud_index g e then e else - 1"
  from g have g1: "PAGE_SHIFT g + pte_bits g \<le> 64" by simp
  note F = f [unfolded kvm_mips_flush_gpa_pud_def Let_def]
  have D: "distinct [pud_index g s ..< Suc (pud_index g e)]" by simp
  show ?thesis
  proof (cases "?j \<in> set [pud_index g s ..< Suc (pud_index g e)]")
    case True
    with r have c: "\<not> in_range g (pte_bits g + pmd_bits g) (?s ?j) (?e ?j) x"
      unfolding in_range_pud [OF g] by auto
    from for_each_index_entry [OF F D True] obtain r where b:
      "kvm_mips_flush_gpa_pud_entry g (?s ?j) (?e ?j) (pud ?j) = Inr (r, pud' ?j)"
      by blast
    from flush_pud_entry_out [where pmd = pmd and t = t, OF g1 c t b [unfolded p]]
    have nr: "\<not> r" and ex: "\<exists>pmd' t'. pud' ?j = PudTable pmd' \<and>
        pmd' (pmd_index g x) = PmdTable t' \<and> t' (pte_index g x) = t (pte_index g x)"
      by auto
    from for_each_index_flag_entry [OF F D _ True b] nr have "\<not> sf" by blast
    with ex show ?thesis by simp
  next
    case False
    with for_each_index_frame [OF F D] have "pud' ?j = pud ?j" by blast
    moreover from False pud_index_less [of g x]
    have "\<not> (pud_index g s = 0 \<and> pud_index g e = PTRS_PER_PUD g - 1)" by auto
    with for_each_index_flag_init [OF F D] have "\<not> sf" by blast
    ultimately show ?thesis using p t by simp
  qed
qed

lemma flush_pgd_entry_out:
  assumes g: "PAGE_SHIFT g + (pte_bits g + pmd_bits g) \<le> 64"
    and r: "\<not> in_range g (pte_bits g + pmd_bits g + pud_bits g) s e x"
    and p: "ent (pud_index g x) = PudTable pmd"
    and t: "pmd (pmd_index g x) = PmdTable t"
    and f: "kvm_mips_flush_gpa_pgd_entry g s e ent = Inr (r, ent')"
  shows "\<not> r \<and> (\<exists>pmd' t'. ent' (pud_index g x) = PudTable pmd' \<and>
      pmd' (pmd_index g x) = PmdTable t' \<and> t' (pte_index g x) = t (pte_index g x))"
proof (cases "kvm_mips_flush_gpa_pud g ent s e")
  case (Inl c)
  with f show ?thesis
    by (simp add: kvm_mips_flush_gpa_pgd_entry_def pgd_present_def)
next
  case (Inr q)
  obtain sf pud' where q: "q = (sf, pud')" by (cases q)
  from flush_pud_out [where pud = ent and pmd = pmd and t = t, OF g r p t Inr [unfolded q]]
  have "\<not> sf" and "\<exists>pmd' t'. pud' (pud_index g x) = PudTable pmd' \<and>
      pmd' (pmd_index g x) = PmdTable t' \<and> t' (pte_index g x) = t (pte_index g x)"
    by simp_all
  with f Inr q show ?thesis
    by (auto simp add: kvm_mips_flush_gpa_pgd_entry_def pgd_present_def)
qed

lemma flush_pgd_out:
  assumes g: "PAGE_SHIFT g + (pte_bits g + pmd_bits g + pud_bits g) \<le> 64"
    and r: "\<not> in_range g (pte_bits g + pmd_bits g + pud_bits g + pgd_bits g) s e x"
    and p: "pgd (pgd_index g x) (pud_index g x) = PudTable pmd"
    and t: "pmd (pmd_index g x) = PmdTable t"
    and f: "kvm_mips_flush_gpa_pgd g pgd s e = Inr (sf, pgd')"
  shows "\<not> sf \<and> (\<exists>pmd' t'. pgd' (pgd_index g x) (pud_index g x) = PudTable pmd' \<and>
      pmd' (pmd_index g x) = PmdTable t' \<and> t' (pte_index g x) = t (pte_index g x))"
proof -
  let ?i = "pgd_index g x"
  let ?s = "\<lambda>k. if k = pgd_index g s then s else 0"
  let ?e = "\<lambda>k. if k = pgd_index g e then e else - 1"
  from g have g1: "PAGE_SHIFT g + (pte_bits g + pmd_bits g) \<le> 64" by simp
  note F = f [unfolded kvm_mips_flush_gpa_pgd_def Let_def]
  have D: "distinct [pgd_index g s ..< Suc (pgd_index g e)]" by simp
  show ?thesis
  proof (cases "?i \<in> set [pgd_index g s ..< Suc (pgd_index g e)]")
    case True
    with r have c: "\<not> in_range g (pte_bits g + pmd_bits g + pud_bits g) (?s ?i) (?e ?i) x"
      unfolding in_range_pgd [OF g] by auto
    from for_each_index_entry [OF F D True] obtain r where b:
      "kvm_mips_flush_gpa_pgd_entry g (?s ?i) (?e ?i) (pgd ?i) = Inr (r, pgd' ?i)"
      by blast
    from flush_pgd_entry_out [where ent = "pgd ?i" and pmd = pmd and t = t, OF g1 c p t b]
    have nr: "\<not> r" and ex: "\<exists>pmd' t'. pgd' ?i (pud_index g x) = PudTable pmd' \<and>
        pmd' (pmd_index g x) = PmdTable t' \<and> t' (pte_index g x) = t (pte_index g x)"
      by auto
    from for_each_index_flag_entry [OF F D _ True b] nr have "\<not> sf" by blast
    with ex show ?thesis by simp
  next
    case False
    with for_each_index_frame [OF F D] have "pgd' ?i = pgd ?i" by blast
    moreover from False pgd_index_less [of g x]
    have "\<not> (pgd_index g s = 0 \<and> pgd_index g e = PTRS_PER_PGD g - 1)" by auto
    with for_each_index_flag_init [OF F D] have "\<not> sf" by blast
    ultimately show ?thesis using p t by simp
  qed
qed

subsection \<open>The read-only walk\<close>

lemma walk_no_cache:
  "kvm_mips_walk_pgd g pgd None addr =
     (case pgd (pgd_index g addr) (pud_index g addr) of
        PudNone \<Rightarrow> Inr (None, pgd, None)
      | PudTable pmd \<Rightarrow>
          (case pmd (pmd_index g addr) of
             PmdNone \<Rightarrow> Inr (None, pgd, None)
           | PmdLeaf p \<Rightarrow>
               if pte_huge p
               then Inr (Some (PmdSlot (pgd_index g addr) (pud_index g addr) (pmd_index g addr)),
                         pgd, None)
               else Inl WildPointer
           | PmdTable t \<Rightarrow>
               Inr (Some (PteSlot (pgd_index g addr) (pud_index g addr) (pmd_index g addr)
                           (pte_index g addr)), pgd, None)))"
proof -
  have same: "\<And>pmd. pgd (pgd_index g addr) (pud_index g addr) = PudTable pmd \<Longrightarrow>
      pgd(pgd_index g addr := (pgd (pgd_index g addr))(pud_index g addr := PudTable pmd)) = pgd"
    by (metis fun_upd_triv)
  have same2: "\<And>pmd t. pgd (pgd_index g addr) (pud_index g addr) = PudTable pmd \<Longrightarrow>
      pmd (pmd_index g addr) = PmdTable t \<Longrightarrow>
      pgd(pgd_index g addr := (pgd (pgd_index g addr))(pud_index g addr :=
           PudTable (pmd(pmd_index g addr := PmdTable t)))) = pgd"
    by (metis fun_upd_triv)
  show ?thesis
    by (auto simp add: kvm_mips_walk_pgd_def Let_def pgd_none_def walk_pud_entry_def
        walk_pmd_entry_def pmd_huge_def same same2 split: pud_t.splits pmd_t.splits)
qed

lemma walk_unmapped:
  assumes "pud_unmapped (pgd (pgd_index g x) (pud_index g x)) (pmd_index g x) (pte_index g x)"
  shows "\<exists>r. kvm_mips_walk_pgd g pgd None x = Inr (r, pgd, None) \<and>
     (case r of None \<Rightarrow> True
      | Some ptep \<Rightarrow> (\<exists>e. slot_get pgd ptep = Some e \<and> \<not> pte_present e))"
  using assms
  by (auto simp add: walk_no_cache pud_unmapped_def pmd_unmapped_def slot_get_def
      split: pud_t.splits pmd_t.splits)

lemma page_nr_push_bit:
  assumes "unat gfn < 2 ^ n" and "PAGE_SHIFT g + n \<le> 64"
  shows "page_nr g (push_bit (PAGE_SHIFT g) gfn) = unat gfn"
proof -
  let ?s = "PAGE_SHIFT g"
  have "unat gfn * 2 ^ ?s < 2 ^ n * 2 ^ ?s" using assms(1) by simp
  also have "\<dots> = 2 ^ (n + ?s)" by (simp add: power_add)
  also have "\<dots> \<le> (2 :: nat) ^ 64" using assms(2) by (intro power_increasing) simp_all
  finally have lt: "unat gfn * 2 ^ ?s < 2 ^ 64" .
  have "unat (push_bit ?s gfn) = take_bit 64 (push_bit ?s (unat gfn))"
    by (simp add: unsigned_push_bit_eq)
  also have "\<dots> = unat gfn * 2 ^ ?s"
    using lt by (simp add: take_bit_nat_eq_self_iff push_bit_eq_mult)
  finally show ?thesis by (simp add: page_nr_def)
qed

lemma in_range_gfn:
  assumes g: "PAGE_SHIFT g + n \<le> 64"
    and "unat a < 2 ^ n" and "unat b < 2 ^ n" and "unat x < 2 ^ n"
  shows "in_range g n (push_bit (PAGE_SHIFT g) a) (push_bit (PAGE_SHIFT g) b)
           (push_bit (PAGE_SHIFT g) x) = (a \<le> x \<and> x \<le> b)"
  using assms
  by (simp add: in_range_def low_bits_def page_nr_push_bit [OF _ g] word_le_nat_alt)

text \<open>
  Concrete inputs: the geometry of the Loongson kernels (\<^verbatim>\<open>PAGE_SHIFT = 14\<close>, 2048 entries
  in a leaf, middle and top node, the upper level folded), a present, writable, dirty
  and young leaf entry, and a page table whose only leaf table maps the frames 0 and 1.
\<close>

definition loongson :: pgtable_geometry where
  "loongson = \<lparr>page_shift = 14, pte_bits = 11, pmd_bits = 11, pud_bits = 0, pgd_bits = 11\<rparr>"

definition pte_rw :: "u64 \<Rightarrow> pte_t" where
  "pte_rw pfn = \<lparr>pte_pfn = pfn, pte_present = True, pte_read = True, pte_write = True,
     pte_dirty = True, pte_young = True, pte_huge = False, pte_cca = 3\<rparr>"

definition pgd_two :: pgd_table where
  "pgd_two = kvm_pgd_init(0 := (\<lambda>j. PudNone)(0 := PudTable (pmd_init(0 := PmdTable
      (clear_page(0 := pte_rw 100, 1 := pte_rw 101))))))"

text \<open>A huge mapping of the second block (frames 2048 to 4095) of the Loongson geometry.\<close>

definition pte_huge_rw :: "u64 \<Rightarrow> pte_t" where
  "pte_huge_rw pfn = (pte_rw pfn)\<lparr>pte_huge := True\<rparr>"

definition pgd_huge :: pgd_table where
  "pgd_huge = kvm_pgd_init(0 := (\<lambda>j. PudNone)(0 := PudTable (pmd_init(1 := PmdLeaf (pte_huge_rw 4096)))))"

text \<open>Rules for running the page-table functions on concrete inputs.\<close>

lemmas pgtable_eval =
  kvm_mips_flush_gpa_pt_def kvm_mips_flush_gpa_pgd_def kvm_mips_flush_gpa_pud_def
  kvm_mips_flush_gpa_pmd_def kvm_mips_flush_gpa_pte_def
  kvm_mips_flush_gpa_pgd_entry_def kvm_mips_flush_gpa_pud_entry_def
  kvm_mips_flush_gpa_pmd_entry_def
  pgd_index_eq pud_index_eq pmd_index_eq pte_index_eq
  unsigned_minus_1_eq_mask mask_eq_exp_minus_1
  PAGE_SHIFT_def PMD_SHIFT_def PUD_SHIFT_def PGDIR_SHIFT_def
  PTRS_PER_PTE_def PTRS_PER_PMD_def PTRS_PER_PUD_def PTRS_PER_PGD_def
  pgd_none_def pgd_present_def pud_present_def pud_none_def pmd_none_def pmd_present_def
  pmd_huge_def pgd_clear_def pmd_init_def clear_page_def kvm_pgd_init_def
  kvm_mips_walk_pgd_def walk_pud_entry_def walk_pmd_entry_def slot_get_def
  upt_conv_Cons

lemma walk_no_cache_PteSlotD:
  assumes "kvm_mips_walk_pgd g pgd None x = Inr (Some (PteSlot i j k l), pgd2, c)"
  shows "\<exists>pmd t. pgd (pgd_index g x) (pud_index g x) = PudTable pmd \<and>
           pmd (pmd_index g x) = PmdTable t \<and>
           i = pgd_index g x \<and> j = pud_index g x \<and> k = pmd_index g x \<and> l = pte_index g x"
proof (cases "pgd (pgd_index g x) (pud_index g x)")
  case PudNone
  with assms show ?thesis by (simp add: walk_no_cache)
next
  case (PudTable pmd)
  show ?thesis
  proof (cases "pmd (pmd_index g x)")
    case PmdNone
    with assms PudTable show ?thesis by (simp add: walk_no_cache)
  next
    case (PmdLeaf p)
    with assms PudTable show ?thesis by (simp add: walk_no_cache split: if_splits)
  next
    case (PmdTable t)
    with assms PudTable show ?thesis by (simp add: walk_no_cache)
  qed
qed

lemma walk_no_cache_PteSlotI:
  assumes "pgd (pgd_index g x) (pud_index g x) = PudTable pmd"
    and "pmd (pmd_index g x) = PmdTable t"
  shows "kvm_mips_walk_pgd g pgd None x =
           Inr (Some (PteSlot (pgd_index g x) (pud_index g x) (pmd_index g x) (pte_index g x)),
                pgd, None)"
    and "slot_get pgd (PteSlot (pgd_index g x) (pud_index g x) (pmd_index g x) (pte_index g x))
           = Some (t (pte_index g x))"
  using assms by (simp_all add: walk_no_cache slot_get_def)

text \<open>The number of address bits above the page offset that the four levels decode.\<close>

definition total_bits :: "pgtable_geometry \<Rightarrow> nat" where
  "total_bits g = pte_bits g + pmd_bits g + pud_bits g + pgd_bits g"

subsection \<open>Blocks\<close>

text \<open>
  The geometry whose pages are the blocks of \<open>g\<close>: the ranges of \<^verbatim>\<open>PMD_SIZE\<close> bytes that one
  middle-level entry covers. The page number of an address in it is the number of the
  block of the address.
\<close>

definition blocks :: "pgtable_geometry \<Rightarrow> pgtable_geometry" where
  "blocks g = g\<lparr>page_shift := page_shift g + pte_bits g\<rparr>"

lemma PAGE_SHIFT_blocks: "PAGE_SHIFT (blocks g) = PMD_SHIFT g"
  by (simp add: blocks_def PAGE_SHIFT_def PMD_SHIFT_def)

lemma page_nr_blocks: "page_nr (blocks g) a = unat a div 2 ^ PMD_SHIFT g"
  by (simp add: page_nr_def PAGE_SHIFT_blocks)

lemma pmd_index_blocks: "pmd_index g a = low_bits (blocks g) (pmd_bits g) a"
  by (simp add: pmd_index_eq low_bits_def page_nr_blocks)

lemma pud_index_blocks:
  "pud_index g a = low_bits (blocks g) (pmd_bits g + pud_bits g) a div 2 ^ pmd_bits g"
proof -
  have "pud_index g a = (unat a div 2 ^ PMD_SHIFT g div 2 ^ pmd_bits g) mod 2 ^ pud_bits g"
    by (simp add: pud_index_eq PUD_SHIFT_def power_add div_mult2_eq)
  also have "\<dots> = (unat a div 2 ^ PMD_SHIFT g) mod 2 ^ (pmd_bits g + pud_bits g) div 2 ^ pmd_bits g"
    by (rule mod_div_pow [symmetric])
  finally show ?thesis by (simp only: low_bits_def page_nr_blocks)
qed

lemma pgd_index_blocks:
  "pgd_index g a =
     low_bits (blocks g) (pmd_bits g + pud_bits g + pgd_bits g) a div 2 ^ (pmd_bits g + pud_bits g)"
proof -
  have "pgd_index g a =
      (unat a div 2 ^ PMD_SHIFT g div 2 ^ (pmd_bits g + pud_bits g)) mod 2 ^ pgd_bits g"
    by (simp add: pgd_index_eq PGDIR_SHIFT_def PUD_SHIFT_def power_add div_mult2_eq)
  also have "\<dots> = (unat a div 2 ^ PMD_SHIFT g) mod 2 ^ (pmd_bits g + pud_bits g + pgd_bits g)
      div 2 ^ (pmd_bits g + pud_bits g)"
    by (rule mod_div_pow [symmetric])
  finally show ?thesis by (simp only: low_bits_def page_nr_blocks)
qed

lemma in_blocks_pmd:
  "in_range (blocks g) (pmd_bits g) s e x =
     (pmd_index g s \<le> pmd_index g x \<and> pmd_index g x \<le> pmd_index g e)"
  by (simp add: in_range_def pmd_index_blocks)

lemma in_blocks_pud:
  assumes "PMD_SHIFT g + pmd_bits g \<le> 64"
  shows "in_range (blocks g) (pmd_bits g + pud_bits g) s e x =
     (pud_index g s \<le> pud_index g x \<and> pud_index g x \<le> pud_index g e \<and>
      in_range (blocks g) (pmd_bits g)
        (if pud_index g x = pud_index g s then s else 0)
        (if pud_index g x = pud_index g e then e else - 1) x)"
proof -
  from assms have "PAGE_SHIFT (blocks g) + pmd_bits g \<le> 64" by (simp add: PAGE_SHIFT_blocks)
  from in_range_split [OF this] show ?thesis
    unfolding pud_index_blocks Let_def .
qed

lemma in_blocks_pgd:
  assumes "PMD_SHIFT g + (pmd_bits g + pud_bits g) \<le> 64"
  shows "in_range (blocks g) (pmd_bits g + pud_bits g + pgd_bits g) s e x =
     (pgd_index g s \<le> pgd_index g x \<and> pgd_index g x \<le> pgd_index g e \<and>
      in_range (blocks g) (pmd_bits g + pud_bits g)
        (if pgd_index g x = pgd_index g s then s else 0)
        (if pgd_index g x = pgd_index g e then e else - 1) x)"
proof -
  from assms have "PAGE_SHIFT (blocks g) + (pmd_bits g + pud_bits g) \<le> 64"
    by (simp add: PAGE_SHIFT_blocks)
  from in_range_split [OF this] show ?thesis
    unfolding pgd_index_blocks Let_def .
qed

subsection \<open>A block that the range does not meet\<close>

text \<open>
  An upper-level entry after the flush is the same as before where the walk for a
  middle-level index looks: still the pointer to \<^verbatim>\<open>invalid_pmd_table\<close>, or a node whose
  entry at that index is the one it had.
\<close>

definition pud_same :: "pud_t \<Rightarrow> pud_t \<Rightarrow> nat \<Rightarrow> bool" where
  "pud_same e e' k =
     (case e of
        PudNone \<Rightarrow> e' = PudNone
      | PudTable pmd \<Rightarrow> (\<exists>pmd'. e' = PudTable pmd' \<and> pmd' k = pmd k))"

lemma pud_same_refl: "pud_same e e k"
  by (simp add: pud_same_def split: pud_t.splits)

lemma flush_pmd_block_out:
  assumes r: "\<not> in_range (blocks g) (pmd_bits g) s e x"
    and f: "kvm_mips_flush_gpa_pmd g pmd s e = Inr (sf, pmd')"
  shows "\<not> sf \<and> pmd' (pmd_index g x) = pmd (pmd_index g x)"
proof -
  let ?k = "pmd_index g x"
  note F = f [unfolded kvm_mips_flush_gpa_pmd_def Let_def]
  have D: "distinct [pmd_index g s ..< Suc (pmd_index g e)]" by simp
  from r have out: "?k \<notin> set [pmd_index g s ..< Suc (pmd_index g e)]"
    unfolding in_blocks_pmd by auto
  with for_each_index_frame [OF F D] have "pmd' ?k = pmd ?k" by blast
  moreover from out pmd_index_less [of g x]
  have "\<not> (pmd_index g s = 0 \<and> pmd_index g e = PTRS_PER_PMD g - 1)" by auto
  with for_each_index_flag_init [OF F D] have "\<not> sf" by blast
  ultimately show ?thesis by simp
qed

lemma flush_pud_entry_block_out:
  assumes r: "\<not> in_range (blocks g) (pmd_bits g) s e x"
    and f: "kvm_mips_flush_gpa_pud_entry g s e ent = Inr (r, ent')"
  shows "pud_same ent ent' (pmd_index g x) \<and> (ent \<noteq> PudNone \<longrightarrow> \<not> r)"
proof (cases ent)
  case PudNone
  with f show ?thesis
    by (simp add: kvm_mips_flush_gpa_pud_entry_def pud_present_def pud_none_def pud_same_def)
next
  case (PudTable pmd)
  show ?thesis
  proof (cases "kvm_mips_flush_gpa_pmd g pmd s e")
    case (Inl c)
    with f PudTable show ?thesis
      by (simp add: kvm_mips_flush_gpa_pud_entry_def pud_present_def pud_none_def)
  next
    case (Inr p)
    obtain sf pmd' where p: "p = (sf, pmd')" by (cases p)
    from flush_pmd_block_out [OF r Inr [unfolded p]]
    have "\<not> sf" and "pmd' (pmd_index g x) = pmd (pmd_index g x)" by simp_all
    with f Inr p PudTable show ?thesis
      by (auto simp add: kvm_mips_flush_gpa_pud_entry_def pud_present_def pud_none_def pud_same_def)
  qed
qed

lemma flush_pud_block_out:
  assumes g: "PMD_SHIFT g + pmd_bits g \<le> 64"
    and r: "\<not> in_range (blocks g) (pmd_bits g + pud_bits g) s e x"
    and f: "kvm_mips_flush_gpa_pud g pud s e = Inr (sf, pud')"
  shows "pud_same (pud (pud_index g x)) (pud' (pud_index g x)) (pmd_index g x) \<and>
         (pud (pud_index g x) \<noteq> PudNone \<longrightarrow> \<not> sf)"
proof -
  let ?j = "pud_index g x"
  let ?s = "\<lambda>k. if k = pud_index g s then s else 0"
  let ?e = "\<lambda>k. if k = pud_index g e then e else - 1"
  note F = f [unfolded kvm_mips_flush_gpa_pud_def Let_def]
  have D: "distinct [pud_index g s ..< Suc (pud_index g e)]" by simp
  show ?thesis
  proof (cases "?j \<in> set [pud_index g s ..< Suc (pud_index g e)]")
    case True
    with r have c: "\<not> in_range (blocks g) (pmd_bits g) (?s ?j) (?e ?j) x"
      unfolding in_blocks_pud [OF g] by auto
    from for_each_index_entry [OF F D True] obtain r where b:
      "kvm_mips_flush_gpa_pud_entry g (?s ?j) (?e ?j) (pud ?j) = Inr (r, pud' ?j)"
      by blast
    from flush_pud_entry_block_out [OF c b]
    have sm: "pud_same (pud ?j) (pud' ?j) (pmd_index g x)" and nr: "pud ?j \<noteq> PudNone \<longrightarrow> \<not> r"
      by simp_all
    have "pud ?j \<noteq> PudNone \<longrightarrow> \<not> sf"
    proof
      assume "pud ?j \<noteq> PudNone"
      with nr have "\<not> r" by simp
      with for_each_index_flag_entry [OF F D _ True b] show "\<not> sf" by blast
    qed
    with sm show ?thesis by simp
  next
    case False
    with for_each_index_frame [OF F D] have "pud' ?j = pud ?j" by blast
    moreover from False pud_index_less [of g x]
    have "\<not> (pud_index g s = 0 \<and> pud_index g e = PTRS_PER_PUD g - 1)" by auto
    with for_each_index_flag_init [OF F D] have "\<not> sf" by blast
    ultimately show ?thesis by (simp add: pud_same_refl)
  qed
qed

lemma flush_pgd_entry_block_out:
  assumes g: "PMD_SHIFT g + pmd_bits g \<le> 64"
    and r: "\<not> in_range (blocks g) (pmd_bits g + pud_bits g) s e x"
    and f: "kvm_mips_flush_gpa_pgd_entry g s e ent = Inr (r, ent')"
  shows "pud_same (ent (pud_index g x)) (ent' (pud_index g x)) (pmd_index g x)"
proof (cases "kvm_mips_flush_gpa_pud g ent s e")
  case (Inl c)
  with f show ?thesis
    by (simp add: kvm_mips_flush_gpa_pgd_entry_def pgd_present_def)
next
  case (Inr q)
  obtain sf pud' where q: "q = (sf, pud')" by (cases q)
  from flush_pud_block_out [OF g r Inr [unfolded q]]
  have "pud_same (ent (pud_index g x)) (pud' (pud_index g x)) (pmd_index g x)" by simp
  with f Inr q show ?thesis
    by (auto simp add: kvm_mips_flush_gpa_pgd_entry_def pgd_present_def pgd_clear_def
        split: if_splits)
qed

lemma flush_pgd_block_out:
  assumes g: "PMD_SHIFT g + (pmd_bits g + pud_bits g) \<le> 64"
    and r: "\<not> in_range (blocks g) (pmd_bits g + pud_bits g + pgd_bits g) s e x"
    and f: "kvm_mips_flush_gpa_pgd g pgd s e = Inr (sf, pgd')"
  shows "pud_same (pgd (pgd_index g x) (pud_index g x)) (pgd' (pgd_index g x) (pud_index g x))
           (pmd_index g x)"
proof -
  let ?i = "pgd_index g x"
  let ?s = "\<lambda>k. if k = pgd_index g s then s else 0"
  let ?e = "\<lambda>k. if k = pgd_index g e then e else - 1"
  from g have g1: "PMD_SHIFT g + pmd_bits g \<le> 64" by simp
  note F = f [unfolded kvm_mips_flush_gpa_pgd_def Let_def]
  have D: "distinct [pgd_index g s ..< Suc (pgd_index g e)]" by simp
  show ?thesis
  proof (cases "?i \<in> set [pgd_index g s ..< Suc (pgd_index g e)]")
    case True
    with r have c: "\<not> in_range (blocks g) (pmd_bits g + pud_bits g) (?s ?i) (?e ?i) x"
      unfolding in_blocks_pgd [OF g] by auto
    from for_each_index_entry [OF F D True] obtain r where b:
      "kvm_mips_flush_gpa_pgd_entry g (?s ?i) (?e ?i) (pgd ?i) = Inr (r, pgd' ?i)"
      by blast
    from flush_pgd_entry_block_out [OF g1 c b] show ?thesis .
  next
    case False
    with for_each_index_frame [OF F D] have "pgd' ?i = pgd ?i" by blast
    then show ?thesis by (simp add: pud_same_refl)
  qed
qed

lemma walk_same:
  assumes s: "pud_same (pgd (pgd_index g x) (pud_index g x)) (pgd' (pgd_index g x) (pud_index g x))
           (pmd_index g x)"
    and w: "kvm_mips_walk_pgd g pgd None x = Inr (r, pgd, None)"
  shows "kvm_mips_walk_pgd g pgd' None x = Inr (r, pgd', None) \<and>
         (\<forall>ptep. r = Some ptep \<longrightarrow> slot_get pgd' ptep = slot_get pgd ptep)"
proof (cases "pgd (pgd_index g x) (pud_index g x)")
  case PudNone
  with s have "pgd' (pgd_index g x) (pud_index g x) = PudNone" by (simp add: pud_same_def)
  with w PudNone show ?thesis by (simp add: walk_no_cache)
next
  case (PudTable pmd)
  with s obtain pmd' where p': "pgd' (pgd_index g x) (pud_index g x) = PudTable pmd'"
    and k: "pmd' (pmd_index g x) = pmd (pmd_index g x)"
    by (auto simp add: pud_same_def)
  show ?thesis
  proof (cases "pmd (pmd_index g x)")
    case PmdNone
    with w PudTable p' k show ?thesis by (simp add: walk_no_cache)
  next
    case (PmdLeaf p)
    with w PudTable p' k show ?thesis
      by (auto simp add: walk_no_cache slot_get_def split: if_splits)
  next
    case (PmdTable t)
    with w PudTable p' k show ?thesis
      by (auto simp add: walk_no_cache slot_get_def)
  qed
qed

subsection \<open>No mapping appears\<close>

lemma flush_pmd_entry_mono:
  assumes u: "pmd_unmapped ent l"
    and f: "kvm_mips_flush_gpa_pmd_entry g s e ent = Inr (r, ent')"
  shows "pmd_unmapped ent' l"
proof (cases ent)
  case PmdNone
  with f show ?thesis
    by (simp add: kvm_mips_flush_gpa_pmd_entry_def pmd_present_def pmd_unmapped_def)
next
  case (PmdLeaf p)
  with f u show ?thesis
    by (auto simp add: kvm_mips_flush_gpa_pmd_entry_def pmd_present_def pmd_huge_def
        pmd_unmapped_def split: if_splits)
next
  case (PmdTable t)
  from u PmdTable have "\<not> pte_present (snd (kvm_mips_flush_gpa_pte g t s e) l)"
    by (simp add: flush_pte_snd pmd_unmapped_def)
  with f PmdTable show ?thesis
    by (auto simp add: kvm_mips_flush_gpa_pmd_entry_def pmd_present_def pmd_huge_def
        pmd_unmapped_def split: if_splits prod.splits)
qed

lemma flush_pmd_mono:
  assumes u: "pmd_unmapped (pmd k) l"
    and f: "kvm_mips_flush_gpa_pmd g pmd s e = Inr (sf, pmd')"
  shows "pmd_unmapped (pmd' k) l"
proof -
  note F = f [unfolded kvm_mips_flush_gpa_pmd_def Let_def]
  have D: "distinct [pmd_index g s ..< Suc (pmd_index g e)]" by simp
  show ?thesis
  proof (cases "k \<in> set [pmd_index g s ..< Suc (pmd_index g e)]")
    case True
    from for_each_index_entry [OF F D True] obtain r where
      "kvm_mips_flush_gpa_pmd_entry g (if k = pmd_index g s then s else 0)
         (if k = pmd_index g e then e else - 1) (pmd k) = Inr (r, pmd' k)"
      by blast
    from flush_pmd_entry_mono [OF u this] show ?thesis .
  next
    case False
    with for_each_index_frame [OF F D] have "pmd' k = pmd k" by blast
    with u show ?thesis by simp
  qed
qed

lemma flush_pud_entry_mono:
  assumes u: "pud_unmapped ent k l"
    and f: "kvm_mips_flush_gpa_pud_entry g s e ent = Inr (r, ent')"
  shows "pud_unmapped ent' k l"
proof (cases ent)
  case PudNone
  with f show ?thesis
    by (simp add: kvm_mips_flush_gpa_pud_entry_def pud_present_def pud_none_def pud_unmapped_def)
next
  case (PudTable pmd)
  show ?thesis
  proof (cases "kvm_mips_flush_gpa_pmd g pmd s e")
    case (Inl c)
    with f PudTable show ?thesis
      by (simp add: kvm_mips_flush_gpa_pud_entry_def pud_present_def pud_none_def)
  next
    case (Inr p)
    obtain sf pmd' where p: "p = (sf, pmd')" by (cases p)
    from u PudTable have "pmd_unmapped (pmd k) l" by (simp add: pud_unmapped_def)
    from flush_pmd_mono [OF this Inr [unfolded p]] have "pmd_unmapped (pmd' k) l" .
    with f Inr p PudTable show ?thesis
      by (auto simp add: kvm_mips_flush_gpa_pud_entry_def pud_present_def pud_none_def
          pud_unmapped_def split: if_splits)
  qed
qed

lemma flush_pud_mono:
  assumes u: "pud_unmapped (pud j) k l"
    and f: "kvm_mips_flush_gpa_pud g pud s e = Inr (sf, pud')"
  shows "pud_unmapped (pud' j) k l"
proof -
  note F = f [unfolded kvm_mips_flush_gpa_pud_def Let_def]
  have D: "distinct [pud_index g s ..< Suc (pud_index g e)]" by simp
  show ?thesis
  proof (cases "j \<in> set [pud_index g s ..< Suc (pud_index g e)]")
    case True
    from for_each_index_entry [OF F D True] obtain r where
      "kvm_mips_flush_gpa_pud_entry g (if j = pud_index g s then s else 0)
         (if j = pud_index g e then e else - 1) (pud j) = Inr (r, pud' j)"
      by blast
    from flush_pud_entry_mono [OF u this] show ?thesis .
  next
    case False
    with for_each_index_frame [OF F D] have "pud' j = pud j" by blast
    with u show ?thesis by simp
  qed
qed

lemma flush_pgd_entry_mono:
  assumes u: "pud_unmapped (ent j) k l"
    and f: "kvm_mips_flush_gpa_pgd_entry g s e ent = Inr (r, ent')"
  shows "pud_unmapped (ent' j) k l"
proof (cases "kvm_mips_flush_gpa_pud g ent s e")
  case (Inl c)
  with f show ?thesis
    by (simp add: kvm_mips_flush_gpa_pgd_entry_def pgd_present_def)
next
  case (Inr q)
  obtain sf pud' where q: "q = (sf, pud')" by (cases q)
  from flush_pud_mono [OF u Inr [unfolded q]] have "pud_unmapped (pud' j) k l" .
  with f Inr q show ?thesis
    by (auto simp add: kvm_mips_flush_gpa_pgd_entry_def pgd_present_def pgd_clear_def
        split: if_splits)
qed

lemma flush_pgd_mono:
  assumes u: "pud_unmapped (pgd i j) k l"
    and f: "kvm_mips_flush_gpa_pgd g pgd s e = Inr (sf, pgd')"
  shows "pud_unmapped (pgd' i j) k l"
proof -
  note F = f [unfolded kvm_mips_flush_gpa_pgd_def Let_def]
  have D: "distinct [pgd_index g s ..< Suc (pgd_index g e)]" by simp
  show ?thesis
  proof (cases "i \<in> set [pgd_index g s ..< Suc (pgd_index g e)]")
    case True
    from for_each_index_entry [OF F D True] obtain r where
      "kvm_mips_flush_gpa_pgd_entry g (if i = pgd_index g s then s else 0)
         (if i = pgd_index g e then e else - 1) (pgd i) = Inr (r, pgd' i)"
      by blast
    from flush_pgd_entry_mono [OF u this] show ?thesis .
  next
    case False
    with for_each_index_frame [OF F D] have "pgd' i = pgd i" by blast
    with u show ?thesis by simp
  qed
qed

subsection \<open>A huge mapping in a block that the range meets\<close>

lemma flush_pmd_entry_huge:
  assumes h: "pte_huge p"
    and f: "kvm_mips_flush_gpa_pmd_entry g s e (PmdLeaf p) = Inr (r, ent')"
  shows "pmd_unmapped ent' l"
  using assms
  by (auto simp add: kvm_mips_flush_gpa_pmd_entry_def pmd_present_def pmd_huge_def
      pmd_unmapped_def split: if_splits)

lemma flush_pmd_huge_in:
  assumes r: "in_range (blocks g) (pmd_bits g) s e x"
    and t: "pmd (pmd_index g x) = PmdLeaf p" and h: "pte_huge p"
    and f: "kvm_mips_flush_gpa_pmd g pmd s e = Inr (sf, pmd')"
  shows "pmd_unmapped (pmd' (pmd_index g x)) l"
proof -
  let ?k = "pmd_index g x"
  note F = f [unfolded kvm_mips_flush_gpa_pmd_def Let_def]
  have D: "distinct [pmd_index g s ..< Suc (pmd_index g e)]" by simp
  from r have k: "?k \<in> set [pmd_index g s ..< Suc (pmd_index g e)]"
    unfolding in_blocks_pmd by auto
  from for_each_index_entry [OF F D k] obtain r where
    "kvm_mips_flush_gpa_pmd_entry g (if ?k = pmd_index g s then s else 0)
       (if ?k = pmd_index g e then e else - 1) (pmd ?k) = Inr (r, pmd' ?k)"
    by blast
  from flush_pmd_entry_huge [OF h this [unfolded t]] show ?thesis .
qed

lemma flush_pud_entry_huge_in:
  assumes r: "in_range (blocks g) (pmd_bits g) s e x"
    and t: "pmd (pmd_index g x) = PmdLeaf p" and h: "pte_huge p"
    and f: "kvm_mips_flush_gpa_pud_entry g s e (PudTable pmd) = Inr (r, ent')"
  shows "pud_unmapped ent' (pmd_index g x) l"
proof (cases "kvm_mips_flush_gpa_pmd g pmd s e")
  case (Inl c)
  with f show ?thesis
    by (simp add: kvm_mips_flush_gpa_pud_entry_def pud_present_def pud_none_def)
next
  case (Inr q)
  obtain sf pmd' where q: "q = (sf, pmd')" by (cases q)
  from flush_pmd_huge_in [where pmd = pmd, OF r t h Inr [unfolded q]]
  have "pmd_unmapped (pmd' (pmd_index g x)) l" .
  with f Inr q show ?thesis
    by (auto simp add: kvm_mips_flush_gpa_pud_entry_def pud_present_def pud_none_def
        pud_unmapped_def split: if_splits)
qed

lemma flush_pud_huge_in:
  assumes g: "PMD_SHIFT g + pmd_bits g \<le> 64"
    and r: "in_range (blocks g) (pmd_bits g + pud_bits g) s e x"
    and p: "pud (pud_index g x) = PudTable pmd"
    and t: "pmd (pmd_index g x) = PmdLeaf p" and h: "pte_huge p"
    and f: "kvm_mips_flush_gpa_pud g pud s e = Inr (sf, pud')"
  shows "pud_unmapped (pud' (pud_index g x)) (pmd_index g x) l"
proof -
  let ?j = "pud_index g x"
  let ?s = "\<lambda>k. if k = pud_index g s then s else 0"
  let ?e = "\<lambda>k. if k = pud_index g e then e else - 1"
  note F = f [unfolded kvm_mips_flush_gpa_pud_def Let_def]
  have D: "distinct [pud_index g s ..< Suc (pud_index g e)]" by simp
  from r have j: "?j \<in> set [pud_index g s ..< Suc (pud_index g e)]"
    and c: "in_range (blocks g) (pmd_bits g) (?s ?j) (?e ?j) x"
    unfolding in_blocks_pud [OF g] by auto
  from for_each_index_entry [OF F D j] obtain r where b:
    "kvm_mips_flush_gpa_pud_entry g (?s ?j) (?e ?j) (pud ?j) = Inr (r, pud' ?j)"
    by blast
  from flush_pud_entry_huge_in [where pmd = pmd, OF c t h b [unfolded p]] show ?thesis .
qed

lemma flush_pgd_entry_huge_in:
  assumes g: "PMD_SHIFT g + pmd_bits g \<le> 64"
    and r: "in_range (blocks g) (pmd_bits g + pud_bits g) s e x"
    and p: "ent (pud_index g x) = PudTable pmd"
    and t: "pmd (pmd_index g x) = PmdLeaf p" and h: "pte_huge p"
    and f: "kvm_mips_flush_gpa_pgd_entry g s e ent = Inr (r, ent')"
  shows "pud_unmapped (ent' (pud_index g x)) (pmd_index g x) l"
proof (cases "kvm_mips_flush_gpa_pud g ent s e")
  case (Inl c)
  with f show ?thesis
    by (simp add: kvm_mips_flush_gpa_pgd_entry_def pgd_present_def)
next
  case (Inr q)
  obtain sf pud' where q: "q = (sf, pud')" by (cases q)
  from flush_pud_huge_in [where pud = ent and pmd = pmd, OF g r p t h Inr [unfolded q]]
  have "pud_unmapped (pud' (pud_index g x)) (pmd_index g x) l" .
  with f Inr q show ?thesis
    by (auto simp add: kvm_mips_flush_gpa_pgd_entry_def pgd_present_def pgd_clear_def
        split: if_splits)
qed

lemma flush_pgd_huge_in:
  assumes g: "PMD_SHIFT g + (pmd_bits g + pud_bits g) \<le> 64"
    and r: "in_range (blocks g) (pmd_bits g + pud_bits g + pgd_bits g) s e x"
    and p: "pgd (pgd_index g x) (pud_index g x) = PudTable pmd"
    and t: "pmd (pmd_index g x) = PmdLeaf p" and h: "pte_huge p"
    and f: "kvm_mips_flush_gpa_pgd g pgd s e = Inr (sf, pgd')"
  shows "pud_unmapped (pgd' (pgd_index g x) (pud_index g x)) (pmd_index g x) l"
proof -
  let ?i = "pgd_index g x"
  let ?s = "\<lambda>k. if k = pgd_index g s then s else 0"
  let ?e = "\<lambda>k. if k = pgd_index g e then e else - 1"
  from g have g1: "PMD_SHIFT g + pmd_bits g \<le> 64" by simp
  note F = f [unfolded kvm_mips_flush_gpa_pgd_def Let_def]
  have D: "distinct [pgd_index g s ..< Suc (pgd_index g e)]" by simp
  from r have i: "?i \<in> set [pgd_index g s ..< Suc (pgd_index g e)]"
    and c: "in_range (blocks g) (pmd_bits g + pud_bits g) (?s ?i) (?e ?i) x"
    unfolding in_blocks_pgd [OF g] by auto
  from for_each_index_entry [OF F D i] obtain r where b:
    "kvm_mips_flush_gpa_pgd_entry g (?s ?i) (?e ?i) (pgd ?i) = Inr (r, pgd' ?i)"
    by blast
  from flush_pgd_entry_huge_in [where ent = "pgd ?i" and pmd = pmd, OF g1 c p t h b]
  show ?thesis .
qed

subsection \<open>Frames and blocks\<close>

lemma low_bits_blocks_gfn:
  assumes g: "PAGE_SHIFT g + (pte_bits g + n) \<le> 64"
    and a: "unat a < 2 ^ (pte_bits g + n)"
  shows "low_bits (blocks g) n (push_bit (PAGE_SHIFT g) a) = unat (drop_bit (pte_bits g) a)"
proof -
  have "page_nr (blocks g) (push_bit (PAGE_SHIFT g) a)
      = page_nr g (push_bit (PAGE_SHIFT g) a) div 2 ^ pte_bits g"
    unfolding page_nr_blocks by (simp add: page_nr_def PMD_SHIFT_def power_add div_mult2_eq)
  also have "\<dots> = unat a div 2 ^ pte_bits g"
    by (simp only: page_nr_push_bit [OF a g])
  finally have pn: "page_nr (blocks g) (push_bit (PAGE_SHIFT g) a) = unat a div 2 ^ pte_bits g" .
  from a have "unat a < 2 ^ pte_bits g * 2 ^ n" by (simp add: power_add)
  then have "unat a div 2 ^ pte_bits g < 2 ^ n"
    by (simp add: less_mult_imp_div_less mult.commute)
  then show ?thesis
    by (simp add: low_bits_def pn unat_drop_bit_div)
qed

lemma in_blocks_gfn:
  assumes g: "PAGE_SHIFT g + (pte_bits g + n) \<le> 64"
    and "unat a < 2 ^ (pte_bits g + n)" and "unat b < 2 ^ (pte_bits g + n)"
    and "unat x < 2 ^ (pte_bits g + n)"
  shows "in_range (blocks g) n (push_bit (PAGE_SHIFT g) a) (push_bit (PAGE_SHIFT g) b)
           (push_bit (PAGE_SHIFT g) x) =
         (drop_bit (pte_bits g) a \<le> drop_bit (pte_bits g) x \<and>
          drop_bit (pte_bits g) x \<le> drop_bit (pte_bits g) b)"
  using assms by (simp add: in_range_def low_bits_blocks_gfn [OF g] word_le_nat_alt)

lemma walk_unmapped_conv:
  assumes "kvm_mips_walk_pgd g pgd None x = Inr (r, pgd2, c)"
    and "case r of None \<Rightarrow> True
         | Some ptep \<Rightarrow> (\<exists>e. slot_get pgd ptep = Some e \<and> \<not> pte_present e)"
  shows "pud_unmapped (pgd (pgd_index g x) (pud_index g x)) (pmd_index g x) (pte_index g x)"
proof (cases "pgd (pgd_index g x) (pud_index g x)")
  case PudNone
  then show ?thesis by (simp add: pud_unmapped_def)
next
  case (PudTable pmd)
  show ?thesis
  proof (cases "pmd (pmd_index g x)")
    case PmdNone
    with PudTable show ?thesis by (simp add: pud_unmapped_def pmd_unmapped_def)
  next
    case (PmdLeaf p)
    with assms PudTable show ?thesis
      by (auto simp add: walk_no_cache slot_get_def pud_unmapped_def pmd_unmapped_def
          split: if_splits)
  next
    case (PmdTable t)
    with assms PudTable show ?thesis
      by (auto simp add: walk_no_cache slot_get_def pud_unmapped_def pmd_unmapped_def)
  qed
qed

lemma walk_no_cache_PmdSlotD:
  assumes "kvm_mips_walk_pgd g pgd None x = Inr (Some (PmdSlot i j k), pgd2, c)"
  shows "\<exists>pmd p. pgd (pgd_index g x) (pud_index g x) = PudTable pmd \<and>
           pmd (pmd_index g x) = PmdLeaf p \<and> pte_huge p"
proof (cases "pgd (pgd_index g x) (pud_index g x)")
  case PudNone
  with assms show ?thesis by (simp add: walk_no_cache)
next
  case (PudTable pmd)
  show ?thesis
  proof (cases "pmd (pmd_index g x)")
    case PmdNone
    with assms PudTable show ?thesis by (simp add: walk_no_cache)
  next
    case (PmdLeaf p)
    with assms PudTable show ?thesis by (simp add: walk_no_cache split: if_splits)
  next
    case (PmdTable t)
    with assms PudTable show ?thesis by (simp add: walk_no_cache)
  qed
qed

text \<open>
  The read-only walk for a frame finds no mapping: it returns \<^verbatim>\<open>NULL\<close>, or a pointer to an
  entry that is not present.
\<close>

definition gfn_unmapped :: "pgtable_geometry \<Rightarrow> pgd_table \<Rightarrow> u64 \<Rightarrow> bool" where
  "gfn_unmapped g pgd gfn =
     (\<exists>r. kvm_mips_walk_pgd g pgd None (push_bit (PAGE_SHIFT g) gfn) = Inr (r, pgd, None) \<and>
          (case r of None \<Rightarrow> True
           | Some ptep \<Rightarrow> (\<exists>e. slot_get pgd ptep = Some e \<and> \<not> pte_present e)))"

lemma gfn_unmapped_iff:
  "gfn_unmapped g pgd gfn =
     pud_unmapped (pgd (pgd_index g (push_bit (PAGE_SHIFT g) gfn))
                       (pud_index g (push_bit (PAGE_SHIFT g) gfn)))
       (pmd_index g (push_bit (PAGE_SHIFT g) gfn)) (pte_index g (push_bit (PAGE_SHIFT g) gfn))"
proof
  assume "gfn_unmapped g pgd gfn"
  then obtain r where
    "kvm_mips_walk_pgd g pgd None (push_bit (PAGE_SHIFT g) gfn) = Inr (r, pgd, None)"
    "case r of None \<Rightarrow> True
     | Some ptep \<Rightarrow> (\<exists>e. slot_get pgd ptep = Some e \<and> \<not> pte_present e)"
    unfolding gfn_unmapped_def by blast
  then show "pud_unmapped (pgd (pgd_index g (push_bit (PAGE_SHIFT g) gfn))
                       (pud_index g (push_bit (PAGE_SHIFT g) gfn)))
       (pmd_index g (push_bit (PAGE_SHIFT g) gfn)) (pte_index g (push_bit (PAGE_SHIFT g) gfn))"
    by (rule walk_unmapped_conv)
next
  assume "pud_unmapped (pgd (pgd_index g (push_bit (PAGE_SHIFT g) gfn))
                       (pud_index g (push_bit (PAGE_SHIFT g) gfn)))
       (pmd_index g (push_bit (PAGE_SHIFT g) gfn)) (pte_index g (push_bit (PAGE_SHIFT g) gfn))"
  from walk_unmapped [where pgd = pgd and g = g and x = "push_bit (PAGE_SHIFT g) gfn", OF this]
  show "gfn_unmapped g pgd gfn"
    unfolding gfn_unmapped_def .
qed

text \<open>
  C4, as the code has it. \<^verbatim>\<open>kvm_mips_flush_gpa_pt(kvm, start_gfn, end_gfn)\<close> unmaps the closed
  range \<open>[start_gfn, end_gfn]\<close>: \<open>end_gfn\<close> is the last frame flushed. For frame numbers
  that the page table decodes, and a flush that does not crash:
  \<^item> for every \<open>gfn\<close> in the range, the read-only walk afterwards finds no mapping: it
    returns \<^verbatim>\<open>NULL\<close> or a pointer to an entry that is not present (a leaf table that the
    range covers only in part stays in place, with its entries cleared);
  \<^item> for every \<open>gfn\<close> outside the range, an entry of a leaf table that the read-only
    walk found before the flush is found at the same place with the same value
    afterwards;
  \<^item> for every \<open>gfn\<close> whose block (the frames that share its middle-level entry) does
    not meet the range, the read-only walk returns afterwards what it returned before,
    and the entry it points to, a huge mapping included, has the value it had;
  \<^item> a huge mapping whose block meets the range is removed whole: the walk afterwards
    finds no mapping for any \<open>gfn\<close> of the block, also outside the range;
  \<^item> a \<open>gfn\<close> without a mapping before the flush has none afterwards.
\<close>

theorem kvm_mips_flush_gpa_pt_round_trip:
  assumes geometry: "PAGE_SHIFT g + total_bits g \<le> 64"
    and a: "unat start_gfn < 2 ^ total_bits g"
    and b: "unat end_gfn < 2 ^ total_bits g"
    and x: "unat gfn < 2 ^ total_bits g"
    and f: "kvm_mips_flush_gpa_pt g pgd start_gfn end_gfn = Inr (safe, pgd')"
  shows
  "(start_gfn \<le> gfn \<and> gfn \<le> end_gfn \<longrightarrow> gfn_unmapped g pgd' gfn) \<and>
   (\<not> (start_gfn \<le> gfn \<and> gfn \<le> end_gfn) \<longrightarrow>
      (\<forall>i j k l.
         kvm_mips_walk_pgd g pgd None (push_bit (PAGE_SHIFT g) gfn)
           = Inr (Some (PteSlot i j k l), pgd, None) \<longrightarrow>
         kvm_mips_walk_pgd g pgd' None (push_bit (PAGE_SHIFT g) gfn)
           = Inr (Some (PteSlot i j k l), pgd', None) \<and>
         slot_get pgd' (PteSlot i j k l) = slot_get pgd (PteSlot i j k l))) \<and>
   (\<not> (drop_bit (pte_bits g) start_gfn \<le> drop_bit (pte_bits g) gfn \<and>
       drop_bit (pte_bits g) gfn \<le> drop_bit (pte_bits g) end_gfn) \<longrightarrow>
      (\<forall>r. kvm_mips_walk_pgd g pgd None (push_bit (PAGE_SHIFT g) gfn) = Inr (r, pgd, None) \<longrightarrow>
         kvm_mips_walk_pgd g pgd' None (push_bit (PAGE_SHIFT g) gfn) = Inr (r, pgd', None) \<and>
         (\<forall>ptep. r = Some ptep \<longrightarrow> slot_get pgd' ptep = slot_get pgd ptep))) \<and>
   (drop_bit (pte_bits g) start_gfn \<le> drop_bit (pte_bits g) gfn \<and>
    drop_bit (pte_bits g) gfn \<le> drop_bit (pte_bits g) end_gfn \<longrightarrow>
      (\<forall>i j k.
         kvm_mips_walk_pgd g pgd None (push_bit (PAGE_SHIFT g) gfn)
           = Inr (Some (PmdSlot i j k), pgd, None) \<longrightarrow>
         gfn_unmapped g pgd' gfn)) \<and>
   (gfn_unmapped g pgd gfn \<longrightarrow> gfn_unmapped g pgd' gfn)"
proof -
  let ?s = "push_bit (PAGE_SHIFT g) start_gfn"
  let ?e = "push_bit (PAGE_SHIFT g) end_gfn"
  let ?x = "push_bit (PAGE_SHIFT g) gfn"
  let ?n = "pte_bits g + pmd_bits g + pud_bits g + pgd_bits g"
  let ?m = "pmd_bits g + pud_bits g + pgd_bits g"
  from geometry have g3: "PAGE_SHIFT g + (pte_bits g + pmd_bits g + pud_bits g) \<le> 64"
    and g4: "PAGE_SHIFT g + ?n \<le> 64"
    and gb: "PMD_SHIFT g + (pmd_bits g + pud_bits g) \<le> 64"
    and gm: "PAGE_SHIFT g + (pte_bits g + ?m) \<le> 64"
    by (simp_all add: total_bits_def PMD_SHIFT_def)
  have tb: "total_bits g = pte_bits g + ?m" by (simp add: total_bits_def)
  from f have F: "kvm_mips_flush_gpa_pgd g pgd ?s ?e = Inr (safe, pgd')"
    by (simp add: kvm_mips_flush_gpa_pt_def)
  have R: "in_range g ?n ?s ?e ?x = (start_gfn \<le> gfn \<and> gfn \<le> end_gfn)"
    using a b x by (intro in_range_gfn [OF g4]) (simp_all add: total_bits_def)
  have RB: "in_range (blocks g) ?m ?s ?e ?x =
      (drop_bit (pte_bits g) start_gfn \<le> drop_bit (pte_bits g) gfn \<and>
       drop_bit (pte_bits g) gfn \<le> drop_bit (pte_bits g) end_gfn)"
    using a b x unfolding tb by (rule in_blocks_gfn [OF gm])
  have A: "gfn_unmapped g pgd' gfn" if "start_gfn \<le> gfn \<and> gfn \<le> end_gfn"
  proof -
    from that R have "in_range g ?n ?s ?e ?x" by simp
    from flush_pgd_in [OF g3 this F] show ?thesis by (simp only: gfn_unmapped_iff)
  qed
  have B: "kvm_mips_walk_pgd g pgd' None ?x = Inr (Some (PteSlot i j k l), pgd', None) \<and>
          slot_get pgd' (PteSlot i j k l) = slot_get pgd (PteSlot i j k l)"
    if o: "\<not> (start_gfn \<le> gfn \<and> gfn \<le> end_gfn)"
      and w: "kvm_mips_walk_pgd g pgd None ?x = Inr (Some (PteSlot i j k l), pgd, None)"
    for i j k l
  proof -
    from o R have out: "\<not> in_range g ?n ?s ?e ?x" by simp
    from walk_no_cache_PteSlotD [OF w]
    obtain pmd t where p: "pgd (pgd_index g ?x) (pud_index g ?x) = PudTable pmd"
      and t: "pmd (pmd_index g ?x) = PmdTable t"
      and ix: "i = pgd_index g ?x" "j = pud_index g ?x" "k = pmd_index g ?x" "l = pte_index g ?x"
      by blast
    from flush_pgd_out [where pmd = pmd and t = t, OF g3 out p t F]
    obtain pmd' t' where p': "pgd' (pgd_index g ?x) (pud_index g ?x) = PudTable pmd'"
      and t': "pmd' (pmd_index g ?x) = PmdTable t'"
      and eq: "t' (pte_index g ?x) = t (pte_index g ?x)"
      by blast
    note after = walk_no_cache_PteSlotI [where pgd = pgd' and pmd = pmd' and t = t', OF p' t']
    note before = walk_no_cache_PteSlotI [where pgd = pgd and pmd = pmd and t = t, OF p t]
    show ?thesis
      unfolding ix after(1) after(2) before(2) eq by simp
  qed
  have C: "kvm_mips_walk_pgd g pgd' None ?x = Inr (r, pgd', None) \<and>
         (\<forall>ptep. r = Some ptep \<longrightarrow> slot_get pgd' ptep = slot_get pgd ptep)"
    if o: "\<not> (drop_bit (pte_bits g) start_gfn \<le> drop_bit (pte_bits g) gfn \<and>
       drop_bit (pte_bits g) gfn \<le> drop_bit (pte_bits g) end_gfn)"
      and w: "kvm_mips_walk_pgd g pgd None ?x = Inr (r, pgd, None)"
    for r
  proof -
    from o RB have "\<not> in_range (blocks g) ?m ?s ?e ?x" by simp
    from flush_pgd_block_out [OF gb this F] w show ?thesis by (rule walk_same)
  qed
  have D: "gfn_unmapped g pgd' gfn"
    if m: "drop_bit (pte_bits g) start_gfn \<le> drop_bit (pte_bits g) gfn \<and>
       drop_bit (pte_bits g) gfn \<le> drop_bit (pte_bits g) end_gfn"
      and w: "kvm_mips_walk_pgd g pgd None ?x = Inr (Some (PmdSlot i j k), pgd, None)"
    for i j k
  proof -
    from m RB have r: "in_range (blocks g) ?m ?s ?e ?x" by simp
    from walk_no_cache_PmdSlotD [OF w]
    obtain pmd p where p: "pgd (pgd_index g ?x) (pud_index g ?x) = PudTable pmd"
      and t: "pmd (pmd_index g ?x) = PmdLeaf p" and h: "pte_huge p"
      by blast
    from flush_pgd_huge_in [where pmd = pmd and p = p, OF gb r p t h F]
    show ?thesis by (simp only: gfn_unmapped_iff)
  qed
  have E: "gfn_unmapped g pgd' gfn" if "gfn_unmapped g pgd gfn"
    using that flush_pgd_mono [OF _ F] by (simp only: gfn_unmapped_iff)
  from A B C D E show ?thesis by blast
qed

text \<open>
  The theorem at work on the Loongson geometry (16 KiB pages, 2048 entries per node,
  upper level folded). In the table whose leaf table maps the frames 0 and 1: after the
  flush of the frames 0 to 1 the walk for frame 1 finds no mapping, and after the flush
  of frame 0 alone the walk for frame 1 finds its entry as it was. In the table with a
  huge mapping of the frames 2048 to 4095: after the flush of the frames 2048 to 2049
  the walk for frame 2050 finds no mapping, and after the flush of the frames 0 to 1 it
  finds the huge mapping as it was.
\<close>

theorem kvm_mips_flush_gpa_pt_round_trip_witness:
  "(\<exists>safe pgd'. kvm_mips_flush_gpa_pt loongson pgd_two 0 1 = Inr (safe, pgd') \<and>
      gfn_unmapped loongson pgd' 1) \<and>
   (\<exists>safe pgd'. kvm_mips_flush_gpa_pt loongson pgd_two 0 0 = Inr (safe, pgd') \<and>
      kvm_mips_walk_pgd loongson pgd' None (push_bit (PAGE_SHIFT loongson) 1)
        = Inr (Some (PteSlot 0 0 0 1), pgd', None) \<and>
      slot_get pgd' (PteSlot 0 0 0 1) = Some (pte_rw 101)) \<and>
   (\<exists>safe pgd'. kvm_mips_flush_gpa_pt loongson pgd_huge 2048 2049 = Inr (safe, pgd') \<and>
      gfn_unmapped loongson pgd' 2050) \<and>
   (\<exists>safe pgd'. kvm_mips_flush_gpa_pt loongson pgd_huge 0 1 = Inr (safe, pgd') \<and>
      kvm_mips_walk_pgd loongson pgd' None (push_bit (PAGE_SHIFT loongson) 2050)
        = Inr (Some (PmdSlot 0 0 1), pgd', None) \<and>
      slot_get pgd' (PmdSlot 0 0 1) = Some (pte_huge_rw 4096))"
proof -
  have g: "PAGE_SHIFT loongson + total_bits loongson \<le> 64"
    by (simp add: loongson_def total_bits_def PAGE_SHIFT_def)
  have b: "unat (0 :: u64) < 2 ^ total_bits loongson" "unat (1 :: u64) < 2 ^ total_bits loongson"
    "unat (2048 :: u64) < 2 ^ total_bits loongson" "unat (2049 :: u64) < 2 ^ total_bits loongson"
    "unat (2050 :: u64) < 2 ^ total_bits loongson"
    by (simp_all add: loongson_def total_bits_def)
  have blk: "drop_bit (pte_bits loongson) (0 :: u64) = 0" "drop_bit (pte_bits loongson) (1 :: u64) = 0"
    "drop_bit (pte_bits loongson) (2048 :: u64) = 1" "drop_bit (pte_bits loongson) (2049 :: u64) = 1"
    "drop_bit (pte_bits loongson) (2050 :: u64) = 1"
    by (simp_all add: loongson_def drop_bit_eq_div)
  have mb: "drop_bit (pte_bits loongson) (2048 :: u64) \<le> drop_bit (pte_bits loongson) 2050 \<and>
      drop_bit (pte_bits loongson) (2050 :: u64) \<le> drop_bit (pte_bits loongson) 2049"
    unfolding blk by simp
  have nb: "\<not> (drop_bit (pte_bits loongson) (0 :: u64) \<le> drop_bit (pte_bits loongson) 2050 \<and>
      drop_bit (pte_bits loongson) (2050 :: u64) \<le> drop_bit (pte_bits loongson) 1)"
    unfolding blk by simp
  have nr: "\<not> ((0 :: u64) \<le> 1 \<and> (1 :: u64) \<le> 0)" by simp
  have w1: "kvm_mips_walk_pgd loongson pgd_two None (push_bit (PAGE_SHIFT loongson) 1)
      = Inr (Some (PteSlot 0 0 0 1), pgd_two, None)"
    and s1: "slot_get pgd_two (PteSlot 0 0 0 1) = Some (pte_rw 101)"
    by (simp_all add: pgtable_eval pgd_two_def loongson_def)
  have w2: "kvm_mips_walk_pgd loongson pgd_huge None (push_bit (PAGE_SHIFT loongson) 2050)
      = Inr (Some (PmdSlot 0 0 1), pgd_huge, None)"
    and s2: "slot_get pgd_huge (PmdSlot 0 0 1) = Some (pte_huge_rw 4096)"
    by (simp_all add: pgtable_eval pgd_huge_def pte_huge_rw_def pte_rw_def loongson_def)
  have "\<exists>pgd'. kvm_mips_flush_gpa_pt loongson pgd_two 0 1 = Inr (False, pgd')"
    by (simp add: pgtable_eval pgd_two_def loongson_def pte_rw_def del: upt_Suc)
  then obtain p1 where f1: "kvm_mips_flush_gpa_pt loongson pgd_two 0 1 = Inr (False, p1)"
    by blast
  have "\<exists>pgd'. kvm_mips_flush_gpa_pt loongson pgd_two 0 0 = Inr (False, pgd')"
    by (simp add: pgtable_eval pgd_two_def loongson_def pte_rw_def del: upt_Suc)
  then obtain p2 where f2: "kvm_mips_flush_gpa_pt loongson pgd_two 0 0 = Inr (False, p2)"
    by blast
  have "\<exists>pgd'. kvm_mips_flush_gpa_pt loongson pgd_huge 2048 2049 = Inr (False, pgd')"
    by (simp add: pgtable_eval pgd_huge_def pte_huge_rw_def pte_rw_def loongson_def del: upt_Suc)
  then obtain p3 where f3: "kvm_mips_flush_gpa_pt loongson pgd_huge 2048 2049 = Inr (False, p3)"
    by blast
  have "\<exists>pgd'. kvm_mips_flush_gpa_pt loongson pgd_huge 0 1 = Inr (False, pgd')"
    by (simp add: pgtable_eval pgd_huge_def pte_huge_rw_def pte_rw_def loongson_def del: upt_Suc)
  then obtain p4 where f4: "kvm_mips_flush_gpa_pt loongson pgd_huge 0 1 = Inr (False, p4)"
    by blast
  from kvm_mips_flush_gpa_pt_round_trip [OF g b(1) b(2) b(2) f1, THEN conjunct1]
  have c1: "gfn_unmapped loongson p1 1" by simp
  from kvm_mips_flush_gpa_pt_round_trip [OF g b(1) b(1) b(2) f2,
      THEN conjunct2, THEN conjunct1, THEN mp, THEN spec, THEN spec, THEN spec, THEN spec,
      THEN mp, OF nr w1] s1
  have c2: "kvm_mips_walk_pgd loongson p2 None (push_bit (PAGE_SHIFT loongson) 1)
        = Inr (Some (PteSlot 0 0 0 1), p2, None) \<and>
      slot_get p2 (PteSlot 0 0 0 1) = Some (pte_rw 101)"
    by simp
  from kvm_mips_flush_gpa_pt_round_trip [OF g b(3) b(4) b(5) f3,
      THEN conjunct2, THEN conjunct2, THEN conjunct2, THEN conjunct1, THEN mp,
      THEN spec, THEN spec, THEN spec, THEN mp, OF mb w2]
  have c3: "gfn_unmapped loongson p3 2050" .
  from kvm_mips_flush_gpa_pt_round_trip [OF g b(1) b(2) b(5) f4,
      THEN conjunct2, THEN conjunct2, THEN conjunct1, THEN mp, THEN spec, THEN mp, OF nb w2] s2
  have c4: "kvm_mips_walk_pgd loongson p4 None (push_bit (PAGE_SHIFT loongson) 2050)
        = Inr (Some (PmdSlot 0 0 1), p4, None) \<and>
      slot_get p4 (PmdSlot 0 0 1) = Some (pte_huge_rw 4096)"
    by simp
  from f1 c1 have e1: "\<exists>safe pgd'. kvm_mips_flush_gpa_pt loongson pgd_two 0 1 = Inr (safe, pgd') \<and>
      gfn_unmapped loongson pgd' 1" by blast
  from f2 c2 have e2: "\<exists>safe pgd'. kvm_mips_flush_gpa_pt loongson pgd_two 0 0 = Inr (safe, pgd') \<and>
      kvm_mips_walk_pgd loongson pgd' None (push_bit (PAGE_SHIFT loongson) 1)
        = Inr (Some (PteSlot 0 0 0 1), pgd', None) \<and>
      slot_get pgd' (PteSlot 0 0 0 1) = Some (pte_rw 101)" by blast
  from f3 c3 have e3: "\<exists>safe pgd'. kvm_mips_flush_gpa_pt loongson pgd_huge 2048 2049 = Inr (safe, pgd') \<and>
      gfn_unmapped loongson pgd' 2050" by blast
  from f4 c4 have e4: "\<exists>safe pgd'. kvm_mips_flush_gpa_pt loongson pgd_huge 0 1 = Inr (safe, pgd') \<and>
      kvm_mips_walk_pgd loongson pgd' None (push_bit (PAGE_SHIFT loongson) 2050)
        = Inr (Some (PmdSlot 0 0 1), pgd', None) \<and>
      slot_get pgd' (PmdSlot 0 0 1) = Some (pte_huge_rw 4096)" by blast
  from e1 e2 e3 e4 show ?thesis by (intro conjI)
qed

text \<open>
  C4 as stated fails. In the table whose leaf table maps the frames 0 and 1, after
  \<^verbatim>\<open>kvm_mips_flush_gpa_pt(kvm, 0, 1)\<close> the read-only walk for frame 0, which lies in
  \<open>[0, 1)\<close>, does not return \<^verbatim>\<open>NULL\<close>: it returns the pointer to the cleared entry of the
  leaf table, which is still in place. And the mapping of frame 1, which lies outside
  \<open>[0, 1)\<close>, is gone: the end of the range is inclusive. In the table with a huge
  mapping of the frames 2048 to 4095, after \<^verbatim>\<open>kvm_mips_flush_gpa_pt(kvm, 2048, 2049)\<close> the
  mapping of frame 2050, which lies outside the range whichever way its end is read,
  is gone as well: the walk that returned the present huge entry before returns
  \<^verbatim>\<open>NULL\<close>.
\<close>

theorem kvm_mips_flush_gpa_pt_walk_finds_cleared_entry:
  "(\<exists>pgd'. kvm_mips_flush_gpa_pt loongson pgd_two 0 1 = Inr (False, pgd') \<and>
     kvm_mips_walk_pgd loongson pgd' None (push_bit (PAGE_SHIFT loongson) 0)
       = Inr (Some (PteSlot 0 0 0 0), pgd', None) \<and>
     slot_get pgd' (PteSlot 0 0 0 0) = Some pte_zero \<and>
     kvm_mips_walk_pgd loongson pgd_two None (push_bit (PAGE_SHIFT loongson) 1)
       = Inr (Some (PteSlot 0 0 0 1), pgd_two, None) \<and>
     slot_get pgd_two (PteSlot 0 0 0 1) = Some (pte_rw 101) \<and>
     slot_get pgd' (PteSlot 0 0 0 1) = Some pte_zero) \<and>
   (\<exists>pgd'. kvm_mips_flush_gpa_pt loongson pgd_huge 2048 2049 = Inr (False, pgd') \<and>
     kvm_mips_walk_pgd loongson pgd_huge None (push_bit (PAGE_SHIFT loongson) 2050)
       = Inr (Some (PmdSlot 0 0 1), pgd_huge, None) \<and>
     slot_get pgd_huge (PmdSlot 0 0 1) = Some (pte_huge_rw 4096) \<and>
     pte_present (pte_huge_rw 4096) \<and>
     kvm_mips_walk_pgd loongson pgd' None (push_bit (PAGE_SHIFT loongson) 2050)
       = Inr (None, pgd', None))"
proof (intro conjI)
  show "\<exists>pgd'. kvm_mips_flush_gpa_pt loongson pgd_two 0 1 = Inr (False, pgd') \<and>
     kvm_mips_walk_pgd loongson pgd' None (push_bit (PAGE_SHIFT loongson) 0)
       = Inr (Some (PteSlot 0 0 0 0), pgd', None) \<and>
     slot_get pgd' (PteSlot 0 0 0 0) = Some pte_zero \<and>
     kvm_mips_walk_pgd loongson pgd_two None (push_bit (PAGE_SHIFT loongson) 1)
       = Inr (Some (PteSlot 0 0 0 1), pgd_two, None) \<and>
     slot_get pgd_two (PteSlot 0 0 0 1) = Some (pte_rw 101) \<and>
     slot_get pgd' (PteSlot 0 0 0 1) = Some pte_zero"
    by (simp add: pgtable_eval pgd_two_def loongson_def pte_rw_def del: upt_Suc)
  show "\<exists>pgd'. kvm_mips_flush_gpa_pt loongson pgd_huge 2048 2049 = Inr (False, pgd') \<and>
     kvm_mips_walk_pgd loongson pgd_huge None (push_bit (PAGE_SHIFT loongson) 2050)
       = Inr (Some (PmdSlot 0 0 1), pgd_huge, None) \<and>
     slot_get pgd_huge (PmdSlot 0 0 1) = Some (pte_huge_rw 4096) \<and>
     pte_present (pte_huge_rw 4096) \<and>
     kvm_mips_walk_pgd loongson pgd' None (push_bit (PAGE_SHIFT loongson) 2050)
       = Inr (None, pgd', None)"
    by (simp add: pgtable_eval pgd_huge_def pte_huge_rw_def loongson_def pte_rw_def del: upt_Suc)
qed

section \<open>Unmapping a range: when a node is safe to remove\<close>

lemma flush_pmd_flag:
  assumes f: "kvm_mips_flush_gpa_pmd g pmd s e = Inr (safe, pmd')" and "safe"
  shows "pmd_index g s = 0 \<and> pmd_index g e = PTRS_PER_PMD g - 1"
    and "pmd_index g s \<le> i \<Longrightarrow> i \<le> pmd_index g e \<Longrightarrow> pmd i = PmdTable t \<Longrightarrow>
         fst (kvm_mips_flush_gpa_pte g t (if i = pmd_index g s then s else 0)
                (if i = pmd_index g e then e else - 1))"
proof -
  note F = f [unfolded kvm_mips_flush_gpa_pmd_def Let_def]
  have D: "distinct [pmd_index g s ..< Suc (pmd_index g e)]" by simp
  from for_each_index_flag_init [OF F D \<open>safe\<close>]
  show "pmd_index g s = 0 \<and> pmd_index g e = PTRS_PER_PMD g - 1" .
  assume i: "pmd_index g s \<le> i" "i \<le> pmd_index g e" and t: "pmd i = PmdTable t"
  let ?s = "if i = pmd_index g s then s else 0"
  let ?e = "if i = pmd_index g e then e else - 1"
  from i have I: "i \<in> set [pmd_index g s ..< Suc (pmd_index g e)]" by auto
  obtain sf t' where c: "kvm_mips_flush_gpa_pte g t ?s ?e = (sf, t')"
    by (cases "kvm_mips_flush_gpa_pte g t ?s ?e")
  have "kvm_mips_flush_gpa_pmd_entry g ?s ?e (pmd i) =
          Inr (sf, if sf then PmdNone else PmdTable t')"
    by (simp add: kvm_mips_flush_gpa_pmd_entry_def t pmd_present_def pmd_huge_def c)
  from for_each_index_flag_entry [OF F D \<open>safe\<close> I this] c
  show "fst (kvm_mips_flush_gpa_pte g t ?s ?e)" by simp
qed

lemma flush_pmd_in_place:
  assumes f: "kvm_mips_flush_gpa_pmd g pmd s e = Inr (safe, pmd')"
    and i: "pmd_index g s \<le> i" "i \<le> pmd_index g e" and t: "pmd i = PmdTable t"
    and n: "\<not> fst (kvm_mips_flush_gpa_pte g t (if i = pmd_index g s then s else 0)
                (if i = pmd_index g e then e else - 1))"
  shows "pmd' i = PmdTable (snd (kvm_mips_flush_gpa_pte g t (if i = pmd_index g s then s else 0)
                (if i = pmd_index g e then e else - 1)))"
proof -
  note F = f [unfolded kvm_mips_flush_gpa_pmd_def Let_def]
  have D: "distinct [pmd_index g s ..< Suc (pmd_index g e)]" by simp
  let ?s = "if i = pmd_index g s then s else 0"
  let ?e = "if i = pmd_index g e then e else - 1"
  from i have I: "i \<in> set [pmd_index g s ..< Suc (pmd_index g e)]" by auto
  obtain sf t' where c: "kvm_mips_flush_gpa_pte g t ?s ?e = (sf, t')"
    by (cases "kvm_mips_flush_gpa_pte g t ?s ?e")
  with n have "\<not> sf" by simp
  then have "kvm_mips_flush_gpa_pmd_entry g ?s ?e (pmd i) = Inr (False, PmdTable t')"
    by (simp add: kvm_mips_flush_gpa_pmd_entry_def t pmd_present_def pmd_huge_def c)
  with for_each_index_entry [OF F D I] c show ?thesis by auto
qed

lemma flush_pud_flag:
  assumes f: "kvm_mips_flush_gpa_pud g pud s e = Inr (safe, pud')" and "safe"
  shows "pud_index g s = 0 \<and> pud_index g e = PTRS_PER_PUD g - 1"
    and "pud_index g s \<le> j \<Longrightarrow> j \<le> pud_index g e \<Longrightarrow> pud j = PudTable pmd \<Longrightarrow>
         \<exists>pmd''. kvm_mips_flush_gpa_pmd g pmd (if j = pud_index g s then s else 0)
                (if j = pud_index g e then e else - 1) = Inr (True, pmd'')"
proof -
  note F = f [unfolded kvm_mips_flush_gpa_pud_def Let_def]
  have D: "distinct [pud_index g s ..< Suc (pud_index g e)]" by simp
  from for_each_index_flag_init [OF F D \<open>safe\<close>]
  show "pud_index g s = 0 \<and> pud_index g e = PTRS_PER_PUD g - 1" .
  assume j: "pud_index g s \<le> j" "j \<le> pud_index g e" and t: "pud j = PudTable pmd"
  let ?s = "if j = pud_index g s then s else 0"
  let ?e = "if j = pud_index g e then e else - 1"
  from j have J: "j \<in> set [pud_index g s ..< Suc (pud_index g e)]" by auto
  from for_each_index_entry [OF F D J] obtain r where
    b: "kvm_mips_flush_gpa_pud_entry g ?s ?e (pud j) = Inr (r, pud' j)" by blast
  from for_each_index_flag_entry [OF F D \<open>safe\<close> J b] have r by simp
  with b t show "\<exists>pmd''. kvm_mips_flush_gpa_pmd g pmd ?s ?e = Inr (True, pmd'')"
    by (cases "kvm_mips_flush_gpa_pmd g pmd ?s ?e")
       (auto simp add: kvm_mips_flush_gpa_pud_entry_def pud_present_def pud_none_def
         split: if_splits)
qed

lemma flush_pud_in_place:
  assumes f: "kvm_mips_flush_gpa_pud g pud s e = Inr (safe, pud')"
    and j: "pud_index g s \<le> j" "j \<le> pud_index g e" and t: "pud j = PudTable pmd"
    and n: "kvm_mips_flush_gpa_pmd g pmd (if j = pud_index g s then s else 0)
                (if j = pud_index g e then e else - 1) = Inr (False, pmd'')"
  shows "pud' j = PudTable pmd''"
proof -
  note F = f [unfolded kvm_mips_flush_gpa_pud_def Let_def]
  have D: "distinct [pud_index g s ..< Suc (pud_index g e)]" by simp
  from j have J: "j \<in> set [pud_index g s ..< Suc (pud_index g e)]" by auto
  from n have "kvm_mips_flush_gpa_pud_entry g (if j = pud_index g s then s else 0)
      (if j = pud_index g e then e else - 1) (pud j) = Inr (False, PudTable pmd'')"
    by (simp add: kvm_mips_flush_gpa_pud_entry_def t pud_present_def pud_none_def)
  with for_each_index_entry [OF F D J] show ?thesis by auto
qed

lemma flush_pgd_flag:
  assumes f: "kvm_mips_flush_gpa_pgd g pgd s e = Inr (safe, pgd')" and "safe"
  shows "pgd_index g s = 0 \<and> pgd_index g e = PTRS_PER_PGD g - 1"
    and "pgd_index g s \<le> i \<Longrightarrow> i \<le> pgd_index g e \<Longrightarrow>
         \<exists>pud''. kvm_mips_flush_gpa_pud g (pgd i) (if i = pgd_index g s then s else 0)
                (if i = pgd_index g e then e else - 1) = Inr (True, pud'')"
proof -
  note F = f [unfolded kvm_mips_flush_gpa_pgd_def Let_def]
  have D: "distinct [pgd_index g s ..< Suc (pgd_index g e)]" by simp
  from for_each_index_flag_init [OF F D \<open>safe\<close>]
  show "pgd_index g s = 0 \<and> pgd_index g e = PTRS_PER_PGD g - 1" .
  assume i: "pgd_index g s \<le> i" "i \<le> pgd_index g e"
  let ?s = "if i = pgd_index g s then s else 0"
  let ?e = "if i = pgd_index g e then e else - 1"
  from i have I: "i \<in> set [pgd_index g s ..< Suc (pgd_index g e)]" by auto
  from for_each_index_entry [OF F D I] obtain r where
    b: "kvm_mips_flush_gpa_pgd_entry g ?s ?e (pgd i) = Inr (r, pgd' i)" by blast
  from for_each_index_flag_entry [OF F D \<open>safe\<close> I b] have r by simp
  with b show "\<exists>pud''. kvm_mips_flush_gpa_pud g (pgd i) ?s ?e = Inr (True, pud'')"
    by (cases "kvm_mips_flush_gpa_pud g (pgd i) ?s ?e")
       (auto simp add: kvm_mips_flush_gpa_pgd_entry_def pgd_present_def split: if_splits)
qed

text \<open>A small geometry for running the traversal: four entries in every node.\<close>

definition small_geometry :: pgtable_geometry where
  "small_geometry = \<lparr>page_shift = 12, pte_bits = 2, pmd_bits = 2, pud_bits = 0, pgd_bits = 2\<rparr>"

text \<open>A middle-level node with two leaf tables, each with one present entry.\<close>

definition pmd_two_tables :: pmd_table where
  "pmd_two_tables = pmd_init(0 := PmdTable (clear_page(2 := pte_rw 7)),
                             1 := PmdTable (clear_page(0 := pte_rw 8)))"

text \<open>
  C5. At every level the unmap traversal returns \<^verbatim>\<open>safe_to_remove\<close> only if the index range
  it visited is the whole node (\<open>i_min = 0\<close> and \<open>i_max\<close> the last index) and every child
  node in that range reported safe-to-remove in its turn. A child that did not report
  it, in particular a leaf table that the range covers only in part, stays linked in
  its parent entry, holding what the traversal left of it.
\<close>

theorem flush_safe_to_remove_needs_full_coverage:
  "(fst (kvm_mips_flush_gpa_pte g pte s e) \<longrightarrow>
      pte_index g s = 0 \<and> pte_index g e = PTRS_PER_PTE g - 1) \<and>
   (kvm_mips_flush_gpa_pmd g pmd s e = Inr (safe_pmd, pmd') \<longrightarrow>
      (safe_pmd \<longrightarrow>
         pmd_index g s = 0 \<and> pmd_index g e = PTRS_PER_PMD g - 1 \<and>
         (\<forall>i t. pmd_index g s \<le> i \<and> i \<le> pmd_index g e \<and> pmd i = PmdTable t \<longrightarrow>
            fst (kvm_mips_flush_gpa_pte g t (if i = pmd_index g s then s else 0)
                   (if i = pmd_index g e then e else - 1)))) \<and>
      (\<forall>i t. pmd_index g s \<le> i \<and> i \<le> pmd_index g e \<and> pmd i = PmdTable t \<and>
         \<not> fst (kvm_mips_flush_gpa_pte g t (if i = pmd_index g s then s else 0)
                  (if i = pmd_index g e then e else - 1)) \<longrightarrow>
         pmd' i = PmdTable (snd (kvm_mips_flush_gpa_pte g t (if i = pmd_index g s then s else 0)
                                   (if i = pmd_index g e then e else - 1))))) \<and>
   (kvm_mips_flush_gpa_pud g pud s e = Inr (safe_pud, pud') \<longrightarrow>
      (safe_pud \<longrightarrow>
         pud_index g s = 0 \<and> pud_index g e = PTRS_PER_PUD g - 1 \<and>
         (\<forall>j m. pud_index g s \<le> j \<and> j \<le> pud_index g e \<and> pud j = PudTable m \<longrightarrow>
            (\<exists>m'. kvm_mips_flush_gpa_pmd g m (if j = pud_index g s then s else 0)
                    (if j = pud_index g e then e else - 1) = Inr (True, m')))) \<and>
      (\<forall>j m m'. pud_index g s \<le> j \<and> j \<le> pud_index g e \<and> pud j = PudTable m \<and>
         kvm_mips_flush_gpa_pmd g m (if j = pud_index g s then s else 0)
           (if j = pud_index g e then e else - 1) = Inr (False, m') \<longrightarrow>
         pud' j = PudTable m')) \<and>
   (kvm_mips_flush_gpa_pgd g pgd s e = Inr (safe_pgd, pgd') \<longrightarrow>
      (safe_pgd \<longrightarrow>
         pgd_index g s = 0 \<and> pgd_index g e = PTRS_PER_PGD g - 1 \<and>
         (\<forall>i. pgd_index g s \<le> i \<and> i \<le> pgd_index g e \<longrightarrow>
            (\<exists>u'. kvm_mips_flush_gpa_pud g (pgd i) (if i = pgd_index g s then s else 0)
                    (if i = pgd_index g e then e else - 1) = Inr (True, u')))))"
proof (intro conjI impI allI)
  assume "fst (kvm_mips_flush_gpa_pte g pte s e)"
  then show "pte_index g s = 0" "pte_index g e = PTRS_PER_PTE g - 1"
    by (simp_all add: flush_pte_fst)
next
  assume f: "kvm_mips_flush_gpa_pmd g pmd s e = Inr (safe_pmd, pmd')" and "safe_pmd"
  from flush_pmd_flag(1) [OF this]
  show "pmd_index g s = 0" "pmd_index g e = PTRS_PER_PMD g - 1" by simp_all
next
  fix i t
  assume f: "kvm_mips_flush_gpa_pmd g pmd s e = Inr (safe_pmd, pmd')" and "safe_pmd"
    and "pmd_index g s \<le> i \<and> i \<le> pmd_index g e \<and> pmd i = PmdTable t"
  with flush_pmd_flag(2) [OF f \<open>safe_pmd\<close>, of i t]
  show "fst (kvm_mips_flush_gpa_pte g t (if i = pmd_index g s then s else 0)
               (if i = pmd_index g e then e else - 1))" by blast
next
  fix i t
  assume f: "kvm_mips_flush_gpa_pmd g pmd s e = Inr (safe_pmd, pmd')"
    and "pmd_index g s \<le> i \<and> i \<le> pmd_index g e \<and> pmd i = PmdTable t \<and>
         \<not> fst (kvm_mips_flush_gpa_pte g t (if i = pmd_index g s then s else 0)
                  (if i = pmd_index g e then e else - 1))"
  with flush_pmd_in_place [OF f, of i t]
  show "pmd' i = PmdTable (snd (kvm_mips_flush_gpa_pte g t (if i = pmd_index g s then s else 0)
                                   (if i = pmd_index g e then e else - 1)))" by blast
next
  assume f: "kvm_mips_flush_gpa_pud g pud s e = Inr (safe_pud, pud')" and "safe_pud"
  from flush_pud_flag(1) [OF this]
  show "pud_index g s = 0" "pud_index g e = PTRS_PER_PUD g - 1" by simp_all
next
  fix j m
  assume f: "kvm_mips_flush_gpa_pud g pud s e = Inr (safe_pud, pud')" and "safe_pud"
    and "pud_index g s \<le> j \<and> j \<le> pud_index g e \<and> pud j = PudTable m"
  with flush_pud_flag(2) [OF f \<open>safe_pud\<close>, of j m]
  show "\<exists>m'. kvm_mips_flush_gpa_pmd g m (if j = pud_index g s then s else 0)
               (if j = pud_index g e then e else - 1) = Inr (True, m')" by blast
next
  fix j m m'
  assume f: "kvm_mips_flush_gpa_pud g pud s e = Inr (safe_pud, pud')"
    and "pud_index g s \<le> j \<and> j \<le> pud_index g e \<and> pud j = PudTable m \<and>
         kvm_mips_flush_gpa_pmd g m (if j = pud_index g s then s else 0)
           (if j = pud_index g e then e else - 1) = Inr (False, m')"
  with flush_pud_in_place [OF f, of j m m']
  show "pud' j = PudTable m'" by blast
next
  assume f: "kvm_mips_flush_gpa_pgd g pgd s e = Inr (safe_pgd, pgd')" and "safe_pgd"
  from flush_pgd_flag(1) [OF this]
  show "pgd_index g s = 0" "pgd_index g e = PTRS_PER_PGD g - 1" by simp_all
next
  fix i
  assume f: "kvm_mips_flush_gpa_pgd g pgd s e = Inr (safe_pgd, pgd')" and "safe_pgd"
    and "pgd_index g s \<le> i \<and> i \<le> pgd_index g e"
  with flush_pgd_flag(2) [OF f \<open>safe_pgd\<close>, of i]
  show "\<exists>u'. kvm_mips_flush_gpa_pud g (pgd i) (if i = pgd_index g s then s else 0)
               (if i = pgd_index g e then e else - 1) = Inr (True, u')" by blast
qed

lemma flush_pmd_two_tables_full: "\<exists>pmd'. kvm_mips_flush_gpa_pmd small_geometry pmd_two_tables 0 0xF000 = Inr (True, pmd')"
  by (simp add: pgtable_eval small_geometry_def pmd_two_tables_def pte_rw_def
      del: upt_Suc)

lemma flush_pmd_two_tables_part: "\<exists>pmd'. kvm_mips_flush_gpa_pmd small_geometry pmd_two_tables 0x1000 0xF000 = Inr (False, pmd')"
  by (simp add: pgtable_eval small_geometry_def pmd_two_tables_def pte_rw_def
      del: upt_Suc)

text \<open>
  The theorem at work on a middle-level node with two leaf tables: a range that covers
  the node reports safe-to-remove; a range that starts at the second entry of the first
  leaf table does not, and leaves that table in place.
\<close>

theorem flush_safe_to_remove_needs_full_coverage_witness:
  "(\<exists>pmd'. kvm_mips_flush_gpa_pmd small_geometry pmd_two_tables 0 0xF000 = Inr (True, pmd')) \<and>
   pmd_index small_geometry 0 = 0 \<and>
   pmd_index small_geometry 0xF000 = PTRS_PER_PMD small_geometry - 1 \<and>
   fst (kvm_mips_flush_gpa_pte small_geometry (clear_page(2 := pte_rw 7)) 0 (- 1)) \<and>
   (\<exists>pmd'. kvm_mips_flush_gpa_pmd small_geometry pmd_two_tables 0x1000 0xF000 = Inr (False, pmd') \<and>
      pmd' 0 = PmdTable (snd (kvm_mips_flush_gpa_pte small_geometry (clear_page(2 := pte_rw 7))
                                0x1000 (- 1))))"
proof -
  let ?g = small_geometry
  let ?t = "clear_page(2 := pte_rw 7)"
  obtain p1 where f1: "kvm_mips_flush_gpa_pmd ?g pmd_two_tables 0 0xF000 = Inr (True, p1)"
    using flush_pmd_two_tables_full by blast
  obtain p2 where f2: "kvm_mips_flush_gpa_pmd ?g pmd_two_tables 0x1000 0xF000 = Inr (False, p2)"
    using flush_pmd_two_tables_part by blast
  have t0: "pmd_two_tables 0 = PmdTable ?t"
    by (simp add: pmd_two_tables_def)
  have ix: "pmd_index ?g 0 = 0" "pmd_index ?g 0x1000 = 0" "pmd_index ?g 0xF000 = 3"
    by (simp_all add: pmd_index_eq small_geometry_def PMD_SHIFT_def PAGE_SHIFT_def)
  have n: "\<not> fst (kvm_mips_flush_gpa_pte ?g ?t 0x1000 (- 1))"
    by (simp add: flush_pte_fst pte_index_eq small_geometry_def PAGE_SHIFT_def)
  note T1 = flush_safe_to_remove_needs_full_coverage
    [where g = ?g and s = 0 and e = "0xF000" and pmd = pmd_two_tables and safe_pmd = True
       and pmd' = p1]
  note T2 = flush_safe_to_remove_needs_full_coverage
    [where g = ?g and s = "0x1000" and e = "0xF000" and pmd = pmd_two_tables and safe_pmd = False
       and pmd' = p2]
  note P1 = T1 [THEN conjunct2, THEN conjunct1, THEN mp, OF f1]
  note P2 = T2 [THEN conjunct2, THEN conjunct1, THEN mp, OF f2]
  note Q1 = P1 [THEN conjunct1, THEN mp, OF TrueI]
  from Q1 [THEN conjunct1] Q1 [THEN conjunct2, THEN conjunct1]
  have a: "pmd_index ?g 0 = 0 \<and> pmd_index ?g 0xF000 = PTRS_PER_PMD ?g - 1"
    by (rule conjI)
  from Q1 [THEN conjunct2, THEN conjunct2, THEN spec, THEN spec, of 0 ?t] t0
  have c: "fst (kvm_mips_flush_gpa_pte ?g ?t 0 (- 1))"
    by (simp add: ix)
  from P2 [THEN conjunct2, THEN spec, THEN spec, of 0 ?t] t0 n
  have d: "p2 0 = PmdTable (snd (kvm_mips_flush_gpa_pte ?g ?t 0x1000 (- 1)))"
    by (simp add: ix)
  from f1 have e1: "\<exists>pmd'. kvm_mips_flush_gpa_pmd ?g pmd_two_tables 0 0xF000 = Inr (True, pmd')"
    by blast
  from f2 d have e2: "\<exists>pmd'. kvm_mips_flush_gpa_pmd ?g pmd_two_tables 0x1000 0xF000 = Inr (False, pmd') \<and>
      pmd' 0 = PmdTable (snd (kvm_mips_flush_gpa_pte ?g ?t 0x1000 (- 1)))"
    by blast
  from e1 a [THEN conjunct1] a [THEN conjunct2] c e2 show ?thesis
    by (intro conjI)
qed

section \<open>The page-table walk: lookup, allocation and huge mappings\<close>

lemma walk_huge:
  assumes "pgd (pgd_index g addr) (pud_index g addr) = PudTable pmd"
    and "pmd (pmd_index g addr) = PmdLeaf p" and "pte_huge p"
  shows "kvm_mips_walk_pgd g pgd cache addr =
           Inr (Some (PmdSlot (pgd_index g addr) (pud_index g addr) (pmd_index g addr)), pgd, cache)"
    and "slot_get pgd (PmdSlot (pgd_index g addr) (pud_index g addr) (pmd_index g addr)) = Some p"
proof -
  have "pgd(pgd_index g addr := (pgd (pgd_index g addr))(pud_index g addr := PudTable pmd)) = pgd"
    using assms(1) by (metis fun_upd_triv)
  with assms show "kvm_mips_walk_pgd g pgd cache addr =
           Inr (Some (PmdSlot (pgd_index g addr) (pud_index g addr) (pmd_index g addr)), pgd, cache)"
    by (simp add: kvm_mips_walk_pgd_def Let_def pgd_none_def walk_pud_entry_def pmd_huge_def)
  from assms show "slot_get pgd (PmdSlot (pgd_index g addr) (pud_index g addr) (pmd_index g addr)) = Some p"
    by (simp add: slot_get_def)
qed

lemma walk_alloc_both:
  assumes "pgd (pgd_index g addr) (pud_index g addr) = PudNone" and "2 \<le> nobjs c"
  shows "kvm_mips_walk_pgd g pgd (Some c) addr =
           Inr (Some (PteSlot (pgd_index g addr) (pud_index g addr) (pmd_index g addr)
                       (pte_index g addr)),
                pgd(pgd_index g addr := (pgd (pgd_index g addr))(pud_index g addr :=
                      PudTable (pmd_init(pmd_index g addr := PmdTable clear_page)))),
                Some (c\<lparr>nobjs := nobjs c - 2\<rparr>))"
  using assms
  by (simp add: kvm_mips_walk_pgd_def Let_def pgd_none_def walk_pud_entry_def pmd_huge_def
      walk_pmd_entry_def mmu_memory_cache_alloc_def pmd_init_def)

lemma walk_alloc_leaf:
  assumes "pgd (pgd_index g addr) (pud_index g addr) = PudTable pmd"
    and "pmd (pmd_index g addr) = PmdNone" and "1 \<le> nobjs c"
  shows "kvm_mips_walk_pgd g pgd (Some c) addr =
           Inr (Some (PteSlot (pgd_index g addr) (pud_index g addr) (pmd_index g addr)
                       (pte_index g addr)),
                pgd(pgd_index g addr := (pgd (pgd_index g addr))(pud_index g addr :=
                      PudTable (pmd(pmd_index g addr := PmdTable clear_page)))),
                Some (c\<lparr>nobjs := nobjs c - 1\<rparr>))"
  using assms
  by (simp add: kvm_mips_walk_pgd_def Let_def pgd_none_def walk_pud_entry_def pmd_huge_def
      walk_pmd_entry_def mmu_memory_cache_alloc_def)

text \<open>
  C2. Without a cache the walk returns \<^verbatim>\<open>NULL\<close> and changes nothing when the upper-level
  or the middle-level entry for the address is none. With a cache that holds the nodes
  needed (two when the upper-level entry is none, one when only the middle-level entry
  is), it takes each missing node from the cache, links it into its parent entry and
  returns the pointer to the leaf entry for the address: a new middle-level node has
  every entry pointing to the invalid leaf table (\<open>PmdNone\<close>), a new leaf table is a
  cleared page, every entry the not-present entry \<^verbatim>\<open>__pte(0)\<close>. When the middle-level entry
  is a huge mapping the walk stops there, with or without a cache, and returns the
  pointer to that entry itself.
\<close>

theorem kvm_mips_walk_pgd_contract:
  "(let i = pgd_index g addr; j = pud_index g addr; k = pmd_index g addr; l = pte_index g addr
    in (pgd i j = PudNone \<or> (\<exists>pmd. pgd i j = PudTable pmd \<and> pmd k = PmdNone) \<longrightarrow>
          kvm_mips_walk_pgd g pgd None addr = Inr (None, pgd, None)) \<and>
       (pgd i j = PudNone \<and> 2 \<le> nobjs c \<longrightarrow>
          kvm_mips_walk_pgd g pgd (Some c) addr =
            Inr (Some (PteSlot i j k l),
                 pgd(i := (pgd i)(j := PudTable (pmd_init(k := PmdTable clear_page)))),
                 Some (c\<lparr>nobjs := nobjs c - 2\<rparr>))) \<and>
       (\<forall>pmd. pgd i j = PudTable pmd \<and> pmd k = PmdNone \<and> 1 \<le> nobjs c \<longrightarrow>
          kvm_mips_walk_pgd g pgd (Some c) addr =
            Inr (Some (PteSlot i j k l),
                 pgd(i := (pgd i)(j := PudTable (pmd(k := PmdTable clear_page)))),
                 Some (c\<lparr>nobjs := nobjs c - 1\<rparr>))) \<and>
       (\<forall>n. pmd_init n = PmdNone) \<and>
       (\<forall>n. clear_page n = pte_zero) \<and> \<not> pte_present pte_zero \<and>
       (\<forall>pmd p. pgd i j = PudTable pmd \<and> pmd k = PmdLeaf p \<and> pte_huge p \<longrightarrow>
          kvm_mips_walk_pgd g pgd cache addr = Inr (Some (PmdSlot i j k), pgd, cache) \<and>
          slot_get pgd (PmdSlot i j k) = Some p))"
  unfolding Let_def
proof (intro conjI impI allI)
  assume "pgd (pgd_index g addr) (pud_index g addr) = PudNone \<or>
     (\<exists>pmd. pgd (pgd_index g addr) (pud_index g addr) = PudTable pmd \<and>
        pmd (pmd_index g addr) = PmdNone)"
  then show "kvm_mips_walk_pgd g pgd None addr = Inr (None, pgd, None)"
    by (auto simp add: walk_no_cache)
next
  assume "pgd (pgd_index g addr) (pud_index g addr) = PudNone \<and> 2 \<le> nobjs c"
  then show "kvm_mips_walk_pgd g pgd (Some c) addr =
      Inr (Some (PteSlot (pgd_index g addr) (pud_index g addr) (pmd_index g addr)
                  (pte_index g addr)),
           pgd(pgd_index g addr := (pgd (pgd_index g addr))(pud_index g addr :=
                 PudTable (pmd_init(pmd_index g addr := PmdTable clear_page)))),
           Some (c\<lparr>nobjs := nobjs c - 2\<rparr>))"
    by (simp add: walk_alloc_both)
next
  fix pmd
  assume "pgd (pgd_index g addr) (pud_index g addr) = PudTable pmd \<and>
      pmd (pmd_index g addr) = PmdNone \<and> 1 \<le> nobjs c"
  then show "kvm_mips_walk_pgd g pgd (Some c) addr =
      Inr (Some (PteSlot (pgd_index g addr) (pud_index g addr) (pmd_index g addr)
                  (pte_index g addr)),
           pgd(pgd_index g addr := (pgd (pgd_index g addr))(pud_index g addr :=
                 PudTable (pmd(pmd_index g addr := PmdTable clear_page)))),
           Some (c\<lparr>nobjs := nobjs c - 1\<rparr>))"
    by (simp add: walk_alloc_leaf)
next
  fix n show "pmd_init n = PmdNone" by (simp add: pmd_init_def)
next
  fix n show "clear_page n = pte_zero" by (simp add: clear_page_def)
next
  show "\<not> pte_present pte_zero" by simp
next
  fix pmd p
  assume a: "pgd (pgd_index g addr) (pud_index g addr) = PudTable pmd \<and>
      pmd (pmd_index g addr) = PmdLeaf p \<and> pte_huge p"
  then show "kvm_mips_walk_pgd g pgd cache addr =
      Inr (Some (PmdSlot (pgd_index g addr) (pud_index g addr) (pmd_index g addr)), pgd, cache)"
    by (simp add: walk_huge(1))
  from a show "slot_get pgd (PmdSlot (pgd_index g addr) (pud_index g addr) (pmd_index g addr)) = Some p"
    by (simp add: walk_huge(2))
qed

text \<open>
  The theorem at work: the walk for frame 1 in the empty page table, without a cache
  and with a cache of two nodes, and the walk for frame 2049 under the huge mapping.
\<close>

theorem kvm_mips_walk_pgd_contract_witness:
  "kvm_mips_walk_pgd loongson kvm_pgd_init None 0x4000 = Inr (None, kvm_pgd_init, None) \<and>
   kvm_mips_walk_pgd loongson kvm_pgd_init (Some \<lparr>nobjs = 2, objects = (\<lambda>_. 0)\<rparr>) 0x4000 =
     Inr (Some (PteSlot 0 0 0 1),
          kvm_pgd_init(0 := (kvm_pgd_init 0)(0 := PudTable (pmd_init(0 := PmdTable clear_page)))),
          Some \<lparr>nobjs = 0, objects = (\<lambda>_. 0)\<rparr>) \<and>
   kvm_mips_walk_pgd loongson pgd_huge None 0x2004000 = Inr (Some (PmdSlot 0 0 1), pgd_huge, None) \<and>
   slot_get pgd_huge (PmdSlot 0 0 1) = Some (pte_huge_rw 4096)"
proof -
  have ix: "pgd_index loongson 0x4000 = 0" "pud_index loongson 0x4000 = 0"
    "pmd_index loongson 0x4000 = 0" "pte_index loongson 0x4000 = 1"
    "pgd_index loongson 0x2004000 = 0" "pud_index loongson 0x2004000 = 0"
    "pmd_index loongson 0x2004000 = 1"
    by (simp_all add: pgd_index_eq pud_index_eq pmd_index_eq pte_index_eq loongson_def
        PAGE_SHIFT_def PMD_SHIFT_def PUD_SHIFT_def PGDIR_SHIFT_def)
  note A = kvm_mips_walk_pgd_contract
    [where g = loongson and addr = "0x4000" and pgd = kvm_pgd_init
       and c = "\<lparr>nobjs = 2, objects = (\<lambda>_. 0)\<rparr>", unfolded Let_def ix]
  note B = kvm_mips_walk_pgd_contract
    [where g = loongson and addr = "0x2004000" and pgd = pgd_huge and cache = None,
     unfolded Let_def ix]
  have e: "kvm_pgd_init 0 0 = PudNone" by (simp add: kvm_pgd_init_def)
  have h: "pgd_huge 0 0 = PudTable (pmd_init(1 := PmdLeaf (pte_huge_rw 4096)))"
    by (simp add: pgd_huge_def)
  have hp: "pte_huge (pte_huge_rw 4096)" by (simp add: pte_huge_rw_def)
  from A [THEN conjunct1] e
  have 1: "kvm_mips_walk_pgd loongson kvm_pgd_init None 0x4000 = Inr (None, kvm_pgd_init, None)"
    by simp
  from A [THEN conjunct2, THEN conjunct1] e
  have 2: "kvm_mips_walk_pgd loongson kvm_pgd_init (Some \<lparr>nobjs = 2, objects = (\<lambda>_. 0)\<rparr>) 0x4000 =
     Inr (Some (PteSlot 0 0 0 1),
          kvm_pgd_init(0 := (kvm_pgd_init 0)(0 := PudTable (pmd_init(0 := PmdTable clear_page)))),
          Some \<lparr>nobjs = 0, objects = (\<lambda>_. 0)\<rparr>)"
    by simp
  from B [THEN conjunct2, THEN conjunct2, THEN conjunct2, THEN conjunct2, THEN conjunct2,
      THEN conjunct2, THEN spec, THEN spec, THEN mp,
      of "pmd_init(1 := PmdLeaf (pte_huge_rw 4096))" "pte_huge_rw 4096"] h hp
  have 3: "kvm_mips_walk_pgd loongson pgd_huge None 0x2004000 =
      Inr (Some (PmdSlot 0 0 1), pgd_huge, None) \<and>
    slot_get pgd_huge (PmdSlot 0 0 1) = Some (pte_huge_rw 4096)"
    by simp
  from 1 2 3 show ?thesis by (intro conjI) simp_all
qed

section \<open>A fault that reports success without a mapping\<close>

lemma walk_empty: "kvm_mips_walk_pgd g kvm_pgd_init None gpa = Inr (None, kvm_pgd_init, None)"
  by (simp add: walk_no_cache kvm_pgd_init_def)

text \<open>
  C1 fails on the code. When the exception code is \<^verbatim>\<open>EXCCODE_TLBRI\<close> (cause register
  \<open>19 << 2 = 76\<close>) the fast path is skipped and \<^verbatim>\<open>err\<close> keeps its initial value 0; when
  no memory slot holds the faulting frame the slow path leaves through \<^verbatim>\<open>goto out\<close>
  without setting \<^verbatim>\<open>err\<close>. So the fault on any address of a VM without memory slots
  returns 0, the page table is still empty, and the read-only walk finds no entry at
  all, let alone a present one.
\<close>

theorem kvm_mips_map_page_success_without_mapping:
  "kvm_mips_map_page passes g env
     \<lparr>kvm = \<lparr>gpa_mm_pgd = kvm_pgd_init, memslots = [], trace = []\<rparr>,
      mmu_page_cache = cache, host_cp0_cause = 76\<rparr> gpa write_fault
     = Some (Inr (0, \<lparr>kvm = \<lparr>gpa_mm_pgd = kvm_pgd_init, memslots = [], trace = []\<rparr>,
                      mmu_page_cache = cache, host_cp0_cause = 76\<rparr>, free_pages env)) \<and>
   kvm_mips_walk_pgd g kvm_pgd_init None gpa = Inr (None, kvm_pgd_init, None)"
  by (simp add: kvm_mips_map_page_def Let_def CAUSEB_EXCCODE_def EXCCODE_TLBRI_def
      EXCCODE_TLBXI_def gfn_to_memslot_def gfn_to_hva_memslot_prot_def walk_empty)

section \<open>The young probe and the mark-clean result\<close>

lemma handle_hva_to_gpa_slots_empty_range:
  "handle_hva_to_gpa_slots g handler hva hva slots st = Inr st"
proof (induction slots)
  case Nil
  show ?case by simp
next
  case (Cons memslot slots)
  have "min hva (userspace_addr memslot + push_bit (PAGE_SHIFT g) (npages memslot))
          \<le> max hva (userspace_addr memslot)"
    by (meson max.cobounded1 min.cobounded1 order_trans)
  with Cons show ?case by (simp add: Let_def)
qed

lemma kvm_test_age_hva_0: "kvm_test_age_hva g vm hva = Inr (0, vm)"
  by (simp add: kvm_test_age_hva_def handle_hva_to_gpa_def handle_hva_to_gpa_slots_empty_range)

text \<open>A memory slot of four frames at the host virtual address \<open>0x10000000\<close>, and a VM with it.\<close>

definition slot_four :: kvm_memory_slot where
  "slot_four = \<lparr>base_gfn = 0, npages = 4, userspace_addr = 0x10000000, readonly = False\<rparr>"

definition vm_two :: vz_vm where
  "vm_two = \<lparr>gpa_mm_pgd = pgd_two, memslots = [slot_four], trace = []\<rparr>"

text \<open>
  C7 fails on the code. \<^verbatim>\<open>kvm_test_age_hva\<close> passes the empty range \<open>[hva, hva)\<close> to
  \<^verbatim>\<open>handle_hva_to_gpa\<close>, which skips every slot because \<^verbatim>\<open>hva_start >= hva_end\<close>: the
  handler never runs and the result is 0 for every VM and address. In the VM above,
  the host virtual address \<open>0x10004000\<close> lies in the slot and belongs to frame 1, whose
  entry is present and young; the handler, had it been called for frame 1, returns 1.
\<close>

theorem kvm_test_age_hva_never_young:
  "kvm_test_age_hva g vm hva = Inr (0, vm) \<and>
   kvm_test_age_hva loongson vm_two 0x10004000 = Inr (0, vm_two) \<and>
   hva_to_gfn_memslot loongson 0x10004000 slot_four = 1 \<and>
   kvm_mips_walk_pgd loongson pgd_two None 0x4000
     = Inr (Some (PteSlot 0 0 0 1), pgd_two, None) \<and>
   slot_get pgd_two (PteSlot 0 0 0 1) = Some (pte_rw 101) \<and>
   pte_present (pte_rw 101) \<and> pte_young (pte_rw 101) \<and>
   kvm_test_age_hva_handler loongson pgd_two 1 2 slot_four = Inr (1, pgd_two)"
proof -
  have a: "push_bit (PAGE_SHIFT loongson) (1 :: u64) = 0x4000"
    by (simp add: loongson_def PAGE_SHIFT_def)
  have w: "kvm_mips_walk_pgd loongson pgd_two None 0x4000
     = Inr (Some (PteSlot 0 0 0 1), pgd_two, None)"
    and s: "slot_get pgd_two (PteSlot 0 0 0 1) = Some (pte_rw 101)"
    by (simp_all add: pgtable_eval pgd_two_def loongson_def)
  have h: "kvm_test_age_hva_handler loongson pgd_two 1 2 slot_four = Inr (1, pgd_two)"
    unfolding kvm_test_age_hva_handler_def kvm_mips_pte_for_gpa_def Let_def a
    by (simp add: w s [unfolded One_nat_def] pte_rw_def)
  have g: "hva_to_gfn_memslot loongson 0x10004000 slot_four = 1"
    by (simp add: hva_to_gfn_memslot_def slot_four_def loongson_def PAGE_SHIFT_def drop_bit_eq_div)
  have p: "pte_present (pte_rw 101)" "pte_young (pte_rw 101)"
    by (simp_all add: pte_rw_def)
  from kvm_test_age_hva_0 [of g vm hva] kvm_test_age_hva_0 [of loongson vm_two "0x10004000"]
    g w s p h
  show ?thesis by (intro conjI)
qed

text \<open>Rules for running the mark-clean and mark-old traversals on concrete inputs.\<close>

lemmas range_op_eval =
  kvm_mips_mkclean_gpa_pt_def kvm_mips_mkclean_pgd_def kvm_mips_mkold_gpa_pt_def
  kvm_mips_mkold_pgd_def kvm_mips_op_pgd_def kvm_mips_op_pgd_entry_def kvm_mips_op_pud_def
  kvm_mips_op_pud_entry_def kvm_mips_op_pmd_def kvm_mips_op_pmd_entry_def kvm_mips_op_pte_def
  pmd_mkclean_def pmd_mkold_def pte_mkclean_def pte_mkold_def

text \<open>
  C3 fails on the code. In \<^verbatim>\<open>kvm_mips_<name>_pmd\<close> the branch for a huge entry stores the
  new value and continues without \<^verbatim>\<open>ret = 1\<close>. Marking clean the block of a present,
  dirty huge entry (frames 2048 to 4095) clears its dirty flag, so the entry changes,
  and the result is 0, already at the first invocation. For the leaf entries of
  frames 0 and 1 the sibling loop \<^verbatim>\<open>kvm_mips_<name>_pte\<close> does report the change.
\<close>

theorem kvm_mips_mkclean_huge_change_unreported:
  "(\<exists>pgd'. kvm_mips_mkclean_gpa_pt loongson pgd_huge 2048 4095 = Inr (0, pgd') \<and>
      slot_get pgd' (PmdSlot 0 0 1) = Some (pte_mkclean (pte_huge_rw 4096))) \<and>
   slot_get pgd_huge (PmdSlot 0 0 1) = Some (pte_huge_rw 4096) \<and>
   pte_present (pte_huge_rw 4096) \<and> pte_dirty (pte_huge_rw 4096) \<and>
   pte_mkclean (pte_huge_rw 4096) \<noteq> pte_huge_rw 4096 \<and>
   (\<exists>pgd'. kvm_mips_mkclean_gpa_pt loongson pgd_two 0 1 = Inr (1, pgd'))"
  by (simp add: pgtable_eval range_op_eval pgd_huge_def pgd_two_def pte_huge_rw_def pte_rw_def
      loongson_def del: upt_Suc)

section \<open>The Dune address translation does not round-trip\<close>

text \<open>
  The layout constants of Dune (a 1 GiB stack window, a 63 GiB mmap window, alignment
  to 1 GiB) and an address space of a 47-bit user process.
\<close>

definition dune_default_layout :: dune_layout where
  "dune_default_layout =
     \<lparr>GPA_STACK_SIZE = 0x40000000, GPA_MAP_SIZE = 0xFC0000000,
      LG_ALIGN = (\<lambda>addr. (addr + 0x3FFFFFFF) AND NOT 0x3FFFFFFF)\<rparr>"

definition mm_example :: mm_struct where
  "mm_example = \<lparr>mmap_base = 0x7FFFF7FFF000, start_stack = 0x7FFFFFFDE000\<rparr>"


lemma stack_align: "LG_ALIGN dune_default_layout (start_stack mm_example) = 0x800000000000"
  by (simp add: dune_default_layout_def mm_example_def)

text \<open>
  C10 fails on the code. \<^verbatim>\<open>get_pabit\<close> is a stub that returns 1 (its comment: "TODO copy code
  from arch/mips/mm/tlbex.c:check_pabits"), so \<^verbatim>\<open>phys_end\<close> is 2 and the stack window of
  the guest-physical space wraps around below 0. For every layout with a stack window of
  at least 4 bytes, the first address of the stack window translates to a guest-physical
  address other than \<^verbatim>\<open>ADDR_INVAL\<close>, and translating that back does not give the address
  again (unless the stack window starts at \<^verbatim>\<open>ADDR_INVAL\<close> or \<^verbatim>\<open>LG_ALIGN\<close> gives 2).
\<close>

theorem dune_stack_round_trip_fails:
  assumes "4 \<le> GPA_STACK_SIZE L"
    and "LG_ALIGN L (start_stack mm) \<noteq> 2"
    and "LG_ALIGN L (start_stack mm) - GPA_STACK_SIZE L \<noteq> ADDR_INVAL"
  shows "dune_hva_to_gpa L mm (LG_ALIGN L (start_stack mm) - GPA_STACK_SIZE L) \<noteq> ADDR_INVAL \<and>
         dune_gpa_to_hva L mm
           (dune_hva_to_gpa L mm (LG_ALIGN L (start_stack mm) - GPA_STACK_SIZE L))
           \<noteq> LG_ALIGN L (start_stack mm) - GPA_STACK_SIZE L"
proof -
  let ?S = "GPA_STACK_SIZE L" and ?A = "LG_ALIGN L (start_stack mm)"
  from assms(1) have S0: "\<not> 0 \<ge> ?S" by unat_arith
  have gpa: "dune_hva_to_gpa L mm (?A - ?S) = 2 - ?S"
    using S0 by (simp add: dune_hva_to_gpa_def Let_def get_pabit_def)
  have n1: "2 - ?S \<noteq> ADDR_INVAL"
  proof
    assume "2 - ?S = ADDR_INVAL"
    then have "2 = ?S - 1" by (simp add: ADDR_INVAL_def diff_eq_eq)
    then have "?S = 3" by (simp add: eq_diff_eq)
    with assms(1) show False by simp
  qed
  from assms(1) have n2: "\<not> 2 - ?S < 2" by unat_arith
  from assms(2) have n3: "2 - ?S \<noteq> ?A - ?S" by simp
  have "dune_gpa_to_hva L mm (2 - ?S) = 2 - ?S \<or> dune_gpa_to_hva L mm (2 - ?S) = ADDR_INVAL"
    using n2 by (simp add: dune_gpa_to_hva_def Let_def get_pabit_def)
  with n3 assms(3) have "dune_gpa_to_hva L mm (2 - ?S) \<noteq> ?A - ?S" by auto
  with gpa n1 show ?thesis by simp
qed

text \<open>
  With Dune's layout and a stack near the top of a 47-bit address space: the host
  virtual address \<open>0x7FFFC0000000\<close> becomes the guest-physical address
  \<open>0xFFFFFFFFC0000002\<close>, which \<^verbatim>\<open>dune_gpa_to_hva\<close> maps to \<^verbatim>\<open>ADDR_INVAL\<close>.
\<close>

theorem dune_stack_round_trip_fails_witness:
  "4 \<le> GPA_STACK_SIZE dune_default_layout \<and>
   LG_ALIGN dune_default_layout (start_stack mm_example) \<noteq> 2 \<and>
   LG_ALIGN dune_default_layout (start_stack mm_example) - GPA_STACK_SIZE dune_default_layout
     = 0x7FFFC0000000 \<and>
   0x7FFFC0000000 \<noteq> ADDR_INVAL \<and>
   dune_hva_to_gpa dune_default_layout mm_example 0x7FFFC0000000 = 0xFFFFFFFFC0000002 \<and>
   dune_hva_to_gpa dune_default_layout mm_example 0x7FFFC0000000 \<noteq> ADDR_INVAL \<and>
   dune_gpa_to_hva dune_default_layout mm_example
     (dune_hva_to_gpa dune_default_layout mm_example 0x7FFFC0000000) = ADDR_INVAL \<and>
   dune_gpa_to_hva dune_default_layout mm_example
     (dune_hva_to_gpa dune_default_layout mm_example 0x7FFFC0000000) \<noteq> 0x7FFFC0000000"
proof -
  have s: "4 \<le> GPA_STACK_SIZE dune_default_layout"
    by (simp add: dune_default_layout_def)
  have a: "LG_ALIGN dune_default_layout (start_stack mm_example) \<noteq> 2"
    by (simp add: stack_align)
  have h: "LG_ALIGN dune_default_layout (start_stack mm_example)
             - GPA_STACK_SIZE dune_default_layout = 0x7FFFC0000000"
    unfolding stack_align by (simp add: dune_default_layout_def)
  have n: "(0x7FFFC0000000 :: u64) \<noteq> ADDR_INVAL"
    by (simp add: ADDR_INVAL_def)
  have v: "dune_hva_to_gpa dune_default_layout mm_example 0x7FFFC0000000 = 0xFFFFFFFFC0000002"
    by (simp add: dune_hva_to_gpa_def Let_def get_pabit_def stack_align)
       (simp add: dune_default_layout_def mm_example_def)
  have b: "dune_gpa_to_hva dune_default_layout mm_example 0xFFFFFFFFC0000002 = ADDR_INVAL"
    by (simp add: dune_gpa_to_hva_def Let_def get_pabit_def dune_default_layout_def)
  from dune_stack_round_trip_fails [OF s a, unfolded h, OF n] s a h n v b
  show ?thesis by (simp only: simp_thms)
qed

section \<open>When a fault may use a huge mapping\<close>








section \<open>Installing a huge mapping\<close>
























end
